theory Spec2Isabelle
  imports Complex_Main "HOL-Library.AList" "HOL-Library.Multiset" "HOL-Library.Sublist"
begin

section \<open>Data model of \<open>eli5/sklearn/text.py\<close>\<close>

text \<open>
  Identifiers are Python strings, weights are Python floats taken as real numbers
  (rounding and NaN are outside the model), counts are Python integers.

  A feature is a plain string, a list of part records of which only the \<open>'name'\<close> entry
  is read (\<open>[f['name'] for f in feature]\<close>), or a \<open>FormattedFeatureName\<close> object, the
  kind \<open>_get_other\<close> creates for its summary entries.
\<close>

datatype feature = Atomic string | Composite "string list" | Formatted string

record feature_weight =
  feature :: feature
  weight :: real

record feature_weights =
  pos :: "feature_weight list"
  neg :: "feature_weight list"
  pos_remaining :: int
  neg_remaining :: int

text \<open>
  Modelled from the spec: the class \<open>FormattedFeatureName\<close> (module \<open>eli5.formatters\<close>) is
  not part of the sources. It is a display-only label that wraps a string: it is not a
  string, equals no string and has no string methods. A key of the lookup table is a
  string or such an object.
\<close>

datatype ident = Name string | Label string

text \<open>The exception a string method raises on an object that is not a string.\<close>

datatype py_error = AttributeError

type_synonym span = "nat \<times> nat"

text \<open>The key \<open>(group, idx)\<close> of a feature weight, and the dictionary \<open>FoundFeatures\<close>.\<close>

type_synonym fkey = "string \<times> nat"

type_synonym found_features = "(fkey \<times> real) list"

record doc_weighted_spans =
  document :: string
  spans :: "(string \<times> span list \<times> real) list"
  preserve_density :: bool
  vec_name :: "string option"

record weighted_spans =
  docs :: "doc_weighted_spans list"
  other :: feature_weights

text \<open>
  A span analyzer maps the preprocessed document to the sequence of
  \<open>(f_spans, feature)\<close> pairs it discovers.
\<close>

type_synonym span_analyzer = "string \<Rightarrow> (span list \<times> string) list"

text \<open>
  Modelled from the spec: \<open>build_span_analyzer\<close> (module \<open>eli5.sklearn._span_analyzers\<close>)
  is not part of the sources. What it returns for one vectorizer, the pair
  \<open>(span_analyzer, preprocessed_doc)\<close> with \<open>span_analyzer\<close> possibly \<open>None\<close>, is carried
  by the vectorizer value itself, next to the \<open>analyzer\<close> attribute the code reads.
\<close>

record text_vectorizer =
  analyzer :: string
  build_span_analyzer :: "string \<Rightarrow> span_analyzer option \<times> string"

text \<open>
  The estimators \<open>get_weighted_spans\<close> tells apart with \<open>isinstance\<close>: a text
  vectorizer, the wrapper \<open>InvertableHashingVectorizer\<close> (its attribute \<open>vec\<close>), a
  \<open>FeatureUnion\<close> (its \<open>transformer_list\<close>), anything else.
\<close>

datatype vectorizer =
    VectorizerMixin text_vectorizer
  | InvertableHashingVectorizer vectorizer
  | FeatureUnion "(string \<times> vectorizer) list"
  | OtherEstimator

section \<open>Python built-ins used by the module\<close>

text \<open>
  A \<open>dict\<close> is an association list with distinct keys in insertion order:
  \<open>d[k] = v\<close> overwrites in place or appends, \<open>d.update(e)\<close> stores the items of
  \<open>e\<close> one by one, \<open>k in d\<close> looks at the keys, \<open>d.values()\<close> are the second components.
\<close>

definition dict_set :: "'k \<Rightarrow> 'v \<Rightarrow> ('k \<times> 'v) list \<Rightarrow> ('k \<times> 'v) list" where
  "dict_set k v d = AList.update k v d"

definition dict_update :: "('k \<times> 'v) list \<Rightarrow> ('k \<times> 'v) list \<Rightarrow> ('k \<times> 'v) list" where
  "dict_update d e = fold (\<lambda>(k, v) acc. dict_set k v acc) e d"

definition dict_of_items :: "('k \<times> 'v) list \<Rightarrow> ('k \<times> 'v) list" where
  "dict_of_items items = dict_update [] items"

definition dict_get :: "('k \<times> 'v) list \<Rightarrow> 'k \<Rightarrow> 'v option" where
  "dict_get d k = map_of d k"

definition dict_keys :: "('k \<times> 'v) list \<Rightarrow> 'k set" where
  "dict_keys d = fst ` set d"

definition startswith :: "string \<Rightarrow> string \<Rightarrow> bool" where
  "startswith x p = (take (length p) x = p)"

text \<open>
  \<open>filter(None, xs)\<close> keeps the truthy elements: here the strings that are neither
  \<open>None\<close> nor empty.
\<close>

fun filter_truthy :: "string option list \<Rightarrow> string list" where
  "filter_truthy [] = []"
| "filter_truthy (None # xs) = filter_truthy xs"
| "filter_truthy (Some s # xs) = (if s = [] then filter_truthy xs else s # filter_truthy xs)"

text \<open>
  A comprehension, a \<open>map\<close> or a loop whose body may raise: the first exception ends it.
\<close>

fun map_raising :: "('a \<Rightarrow> py_error + 'b) \<Rightarrow> 'a list \<Rightarrow> py_error + 'b list" where
  "map_raising f [] = Inr []"
| "map_raising f (x # xs) =
     (case f x of
        Inl e \<Rightarrow> Inl e
      | Inr y \<Rightarrow> (case map_raising f xs of Inl e \<Rightarrow> Inl e | Inr ys \<Rightarrow> Inr (y # ys)))"

definition concat_raising :: "('a \<Rightarrow> py_error + 'b list) \<Rightarrow> 'a list \<Rightarrow> py_error + 'b list" where
  "concat_raising f xs =
     (case map_raising f xs of Inl e \<Rightarrow> Inl e | Inr yss \<Rightarrow> Inr (concat yss))"

fun fold_raising :: "('a \<Rightarrow> 's \<Rightarrow> py_error + 's) \<Rightarrow> 'a list \<Rightarrow> 's \<Rightarrow> py_error + 's" where
  "fold_raising f [] s = Inr s"
| "fold_raising f (x # xs) s =
     (case f x s of Inl e \<Rightarrow> Inl e | Inr s' \<Rightarrow> fold_raising f xs s')"

text \<open>
  \<open>list.sort(key=..., reverse=True)\<close>: the list is reversed, sorted stably in ascending
  order of the key, and reversed again.
\<close>

definition sort_reverse :: "('a \<Rightarrow> real) \<Rightarrow> 'a list \<Rightarrow> 'a list" where
  "sort_reverse k xs = rev (sort_key k (rev xs))"

section \<open>The functions of the module\<close>

text \<open>
  \<open>_get_features\<close>. A feature that is not a list is its own single identifier, also a
  \<open>FormattedFeatureName\<close>. The filter is applied to every identifier, in order, before
  the falsy results are dropped.
\<close>

definition get_features ::
  "feature \<Rightarrow> (ident \<Rightarrow> py_error + string option) option \<Rightarrow> py_error + ident list" where
  "get_features feat feature_fn =
     (let features = (case feat of
                        Composite names \<Rightarrow> map Name names
                      | Atomic s \<Rightarrow> [Name s]
                      | Formatted l \<Rightarrow> [Label l])
      in case feature_fn of
           None \<Rightarrow> Inr features
         | Some fn \<Rightarrow>
             (case map_raising fn features of
                Inl e \<Rightarrow> Inl e
              | Inr results \<Rightarrow> Inr (map Name (filter_truthy results))))"

definition getattr_group :: "feature_weights \<Rightarrow> string \<Rightarrow> feature_weight list" where
  "getattr_group fws grp = (if grp = ''pos'' then pos fws else neg fws)"

text \<open>The items of the comprehension that builds \<open>feature_weights_dict\<close>, in order.\<close>

definition table_items ::
  "feature_weights \<Rightarrow> (ident \<Rightarrow> py_error + string option) option \<Rightarrow>
   py_error + (ident \<times> real \<times> fkey) list" where
  "table_items fws feature_fn =
     concat_raising
       (\<lambda>grp. concat_raising
          (\<lambda>(idx, fw).
             case get_features (feature fw) feature_fn of
               Inl e \<Rightarrow> Inl e
             | Inr fs \<Rightarrow> Inr (map (\<lambda>f. (f, (weight fw, (grp, idx)))) fs))
          (enumerate 0 (getattr_group fws grp)))
       [''pos'', ''neg'']"

definition feature_weights_dict ::
  "feature_weights \<Rightarrow> (ident \<Rightarrow> py_error + string option) option \<Rightarrow>
   py_error + (ident \<times> real \<times> fkey) list" where
  "feature_weights_dict fws feature_fn =
     (case table_items fws feature_fn of
        Inl e \<Rightarrow> Inl e
      | Inr items \<Rightarrow> Inr (dict_of_items items))"

text \<open>
  One iteration of the loop over the analyzer's pairs, on the state
  \<open>(spans, found_features)\<close>. The analyzer's identifier is a string.
\<close>

definition match_step ::
  "(ident \<times> real \<times> fkey) list \<Rightarrow> span list \<times> string \<Rightarrow>
   (string \<times> span list \<times> real) list \<times> found_features \<Rightarrow>
   (string \<times> span list \<times> real) list \<times> found_features" where
  "match_step table pair st =
     (case pair of (f_spans, feat) \<Rightarrow>
      case st of (spans_acc, found) \<Rightarrow>
        (case dict_get table (Name feat) of
           None \<Rightarrow> (spans_acc, found)
         | Some (w, key) \<Rightarrow> (spans_acc @ [(feat, f_spans, w)], dict_set key w found)))"

definition match_loop ::
  "(ident \<times> real \<times> fkey) list \<Rightarrow> (span list \<times> string) list \<Rightarrow>
   (string \<times> span list \<times> real) list \<times> found_features" where
  "match_loop table pairs = fold (match_step table) pairs ([], [])"

text \<open>
  \<open>_get_doc_weighted_spans\<close>: the two guards return \<open>None\<close> before the lookup table is
  built; building the table may raise.
\<close>

definition get_doc_weighted_spans ::
  "string \<Rightarrow> vectorizer \<Rightarrow> feature_weights \<Rightarrow>
   (ident \<Rightarrow> py_error + string option) option \<Rightarrow>
   py_error + (found_features \<times> doc_weighted_spans) option" where
  "get_doc_weighted_spans doc vec fws feature_fn =
     (let vec' = (case vec of InvertableHashingVectorizer v \<Rightarrow> v | _ \<Rightarrow> vec) in
      case vec' of
        VectorizerMixin tv \<Rightarrow>
          (case build_span_analyzer tv doc of
             (None, _) \<Rightarrow> Inr None
           | (Some span_analyzer, preprocessed_doc) \<Rightarrow>
               (case feature_weights_dict fws feature_fn of
                  Inl e \<Rightarrow> Inl e
                | Inr table \<Rightarrow>
                    (let (spans_acc, found) = match_loop table (span_analyzer preprocessed_doc)
                     in Inr (Some (found,
                                   \<lparr>document = preprocessed_doc,
                                    spans = spans_acc,
                                    preserve_density = startswith (analyzer tv) ''char'',
                                    vec_name = None\<rparr>)))))
      | _ \<Rightarrow> Inr None)"

text \<open>\<open>_get_other\<close>: the residual.\<close>

definition all_found_features :: "(string \<times> found_features) list \<Rightarrow> found_features" where
  "all_found_features named_found_features =
     fold (\<lambda>(_, found) acc. dict_update acc found) named_found_features []"

definition keyed_entries :: "feature_weights \<Rightarrow> (fkey \<times> feature_weight) list" where
  "keyed_entries fws =
     [((grp, idx), fw).
        grp \<leftarrow> [''pos'', ''neg''],
        (idx, fw) \<leftarrow> enumerate 0 (getattr_group fws grp)]"

text \<open>The first loop, on the state \<open>(other_items, accounted_keys)\<close>.\<close>

definition unaccounted_step ::
  "found_features \<Rightarrow> fkey \<times> feature_weight \<Rightarrow>
   feature_weight list \<times> fkey set \<Rightarrow> feature_weight list \<times> fkey set" where
  "unaccounted_step all_found entry st =
     (case entry of (key, fw) \<Rightarrow>
      case st of (other_items, accounted_keys) \<Rightarrow>
        if key \<notin> dict_keys all_found \<and> key \<notin> accounted_keys
        then (other_items @ [fw], insert key accounted_keys)
        else (other_items, accounted_keys))"

definition unaccounted_loop ::
  "feature_weights \<Rightarrow> found_features \<Rightarrow> feature_weight list \<times> fkey set" where
  "unaccounted_loop fws all_found =
     fold (unaccounted_step all_found) (keyed_entries fws) ([], {})"

definition highlighted_label :: "string \<Rightarrow> string" where
  "highlighted_label name =
     (if name \<noteq> [] then name @ '': '' else []) @ ''Highlighted in text (sum)''"

text \<open>The second loop, appending the summary entries to \<open>other_items\<close>.\<close>

definition summary_step ::
  "string \<times> found_features \<Rightarrow> feature_weight list \<Rightarrow> feature_weight list" where
  "summary_step named other_items =
     (case named of (name, found) \<Rightarrow>
        if found \<noteq> []
        then other_items @ [\<lparr>feature = Formatted (highlighted_label name),
                             weight = sum_list (map snd found)\<rparr>]
        else other_items)"

definition other_items_appended ::
  "feature_weights \<Rightarrow> (string \<times> found_features) list \<Rightarrow> feature_weight list" where
  "other_items_appended fws named_found_features =
     fold summary_step named_found_features
       (fst (unaccounted_loop fws (all_found_features named_found_features)))"

definition other_items_sorted ::
  "feature_weights \<Rightarrow> (string \<times> found_features) list \<Rightarrow> feature_weight list" where
  "other_items_sorted fws named_found_features =
     sort_reverse (\<lambda>x. \<bar>weight x\<bar>) (other_items_appended fws named_found_features)"

definition get_other ::
  "feature_weights \<Rightarrow> (string \<times> found_features) list \<Rightarrow> feature_weights" where
  "get_other fws named_found_features =
     (let other_items = other_items_sorted fws named_found_features
      in \<lparr>pos = [fw \<leftarrow> other_items. weight fw \<ge> 0],
          neg = [fw \<leftarrow> other_items. weight fw < 0],
          pos_remaining = pos_remaining fws,
          neg_remaining = neg_remaining fws\<rparr>)"

text \<open>
  \<open>_get_weighted_spans_from_union\<close>. The name filter of a source calls
  \<open>x.startswith\<close>, which a \<open>FormattedFeatureName\<close> does not have.
\<close>

definition feature_fn_of :: "string \<Rightarrow> ident \<Rightarrow> py_error + string option" where
  "feature_fn_of name x =
     (let vec_prefix = name @ ''__''
      in case x of
           Name s \<Rightarrow>
             Inr (if startswith s vec_prefix then Some (drop (length vec_prefix) s) else None)
         | Label _ \<Rightarrow> Inl AttributeError)"

text \<open>
  One iteration of the loop over \<open>transformer_list\<close>, on the state
  \<open>(docs_weighted_spans, named_found_features)\<close>.
\<close>

definition union_step ::
  "string \<Rightarrow> feature_weights \<Rightarrow> string \<times> vectorizer \<Rightarrow>
   doc_weighted_spans list \<times> (string \<times> found_features) list \<Rightarrow>
   py_error + doc_weighted_spans list \<times> (string \<times> found_features) list" where
  "union_step doc fws named st =
     (case named of (name, vec) \<Rightarrow>
      case st of (docs_weighted_spans, named_found_features) \<Rightarrow>
        (case get_doc_weighted_spans doc vec fws (Some (feature_fn_of name)) of
           Inl e \<Rightarrow> Inl e
         | Inr None \<Rightarrow> Inr (docs_weighted_spans, named_found_features)
         | Inr (Some (found, dws)) \<Rightarrow>
             Inr (docs_weighted_spans @ [dws\<lparr>vec_name := Some name\<rparr>],
                  named_found_features @ [(name, found)])))"

definition union_loop ::
  "string \<Rightarrow> (string \<times> vectorizer) list \<Rightarrow> feature_weights \<Rightarrow>
   py_error + doc_weighted_spans list \<times> (string \<times> found_features) list" where
  "union_loop doc transformer_list fws =
     fold_raising (union_step doc fws) transformer_list ([], [])"

definition get_weighted_spans_from_union ::
  "string \<Rightarrow> (string \<times> vectorizer) list \<Rightarrow> feature_weights \<Rightarrow>
   py_error + weighted_spans option" where
  "get_weighted_spans_from_union doc transformer_list fws =
     (case union_loop doc transformer_list fws of
        Inl e \<Rightarrow> Inl e
      | Inr (docs_weighted_spans, named_found_features) \<Rightarrow>
          if docs_weighted_spans \<noteq> []
          then Inr (Some \<lparr>docs = docs_weighted_spans,
                          other = get_other fws named_found_features\<rparr>)
          else Inr None)"

definition get_weighted_spans ::
  "string \<Rightarrow> vectorizer \<Rightarrow> feature_weights \<Rightarrow> py_error + weighted_spans option" where
  "get_weighted_spans doc vec fws =
     (case vec of
        FeatureUnion transformer_list \<Rightarrow> get_weighted_spans_from_union doc transformer_list fws
      | _ \<Rightarrow>
        (case get_doc_weighted_spans doc vec fws None of
           Inl e \<Rightarrow> Inl e
         | Inr None \<Rightarrow> Inr None
         | Inr (Some (found, dws)) \<Rightarrow>
             Inr (Some \<lparr>docs = [dws], other = get_other fws [([], found)]\<rparr>)))"

section \<open>Notions used to state the properties\<close>

text \<open>
  The feature weight that \<open>enumerate(getattr(feature_weights, group))\<close> gives at index
  \<open>idx\<close> of \<open>group\<close>, if there is one.
\<close>

definition feature_weight_at :: "feature_weights \<Rightarrow> fkey \<Rightarrow> feature_weight option" where
  "feature_weight_at fws key =
     (case key of (grp, idx) \<Rightarrow>
        if grp = ''pos'' \<and> idx < length (pos fws) then Some (pos fws ! idx)
        else if grp = ''neg'' \<and> idx < length (neg fws) then Some (neg fws ! idx)
        else None)"

text \<open>The keyed entries of one group.\<close>

definition group_entries :: "string \<Rightarrow> feature_weight list \<Rightarrow> (fkey \<times> feature_weight) list" where
  "group_entries grp xs = map (\<lambda>(idx, fw). ((grp, idx), fw)) (enumerate 0 xs)"

text \<open>
  The guards of \<open>_get_doc_weighted_spans\<close>: the text vectorizer under \<open>vec\<close>, the span
  analyzer and the preprocessed document, when the vectorizer is a text vectorizer (also
  inside an \<open>InvertableHashingVectorizer\<close>) and the span analyzer is not \<open>None\<close>.
\<close>

definition analysed :: "string \<Rightarrow> vectorizer \<Rightarrow> (text_vectorizer \<times> span_analyzer \<times> string) option" where
  "analysed doc vec =
     (case (case vec of InvertableHashingVectorizer v \<Rightarrow> v | _ \<Rightarrow> vec) of
        VectorizerMixin tv \<Rightarrow>
          (case build_span_analyzer tv doc of
             (None, _) \<Rightarrow> None
           | (Some span_analyzer, preprocessed_doc) \<Rightarrow> Some (tv, span_analyzer, preprocessed_doc))
      | _ \<Rightarrow> None)"

text \<open>What one discovered pair adds to the spans.\<close>

definition span_entry ::
  "(ident \<times> real \<times> fkey) list \<Rightarrow> span list \<times> string \<Rightarrow> (string \<times> span list \<times> real) list" where
  "span_entry table pair =
     (case dict_get table (Name (snd pair)) of
        None \<Rightarrow> []
      | Some (w, key) \<Rightarrow> [(snd pair, fst pair, w)])"

text \<open>
  The alignment of one named source of a union: \<open>_get_doc_weighted_spans\<close> with the
  name filter of that source.
\<close>

definition source_result ::
  "string \<Rightarrow> feature_weights \<Rightarrow> string \<times> vectorizer \<Rightarrow>
   py_error + (found_features \<times> doc_weighted_spans) option" where
  "source_result doc fws named =
     get_doc_weighted_spans doc (snd named) fws (Some (feature_fn_of (fst named)))"

text \<open>The identifiers of a feature when \<open>_get_features\<close> returns, none when it raises.\<close>

definition identifiers :: "(ident \<Rightarrow> py_error + string option) option \<Rightarrow> feature \<Rightarrow> ident list" where
  "identifiers fn feat = (case get_features feat fn of Inl e \<Rightarrow> [] | Inr fs \<Rightarrow> fs)"

text \<open>The table items one keyed entry contributes.\<close>

definition entry_items ::
  "(ident \<Rightarrow> py_error + string option) option \<Rightarrow> fkey \<times> feature_weight \<Rightarrow>
   (ident \<times> real \<times> fkey) list" where
  "entry_items fn e = map (\<lambda>f. (f, (weight (snd e), fst e))) (identifiers fn (feature (snd e)))"

text \<open>
  The order of the two loops over the feature weights: the group \<open>pos\<close> before the group
  \<open>neg\<close>, and by index within a group.
\<close>

definition enumerated_before :: "fkey \<Rightarrow> fkey \<Rightarrow> bool" where
  "enumerated_before key key' =
     (if fst key = fst key' then snd key < snd key'
      else fst key = ''pos'' \<and> fst key' = ''neg'')"

text \<open>
  What the loop over the sources of a union collects when no alignment raises: the
  tagged documents and the named found features of the sources that return a result.
\<close>

definition union_docs ::
  "string \<Rightarrow> feature_weights \<Rightarrow> (string \<times> vectorizer) list \<Rightarrow> doc_weighted_spans list" where
  "union_docs doc fws srcs =
     concat (map (\<lambda>named. case source_result doc fws named of
                              Inr (Some (found, dws)) \<Rightarrow> [dws\<lparr>vec_name := Some (fst named)\<rparr>]
                            | _ \<Rightarrow> []) srcs)"

definition union_found ::
  "string \<Rightarrow> feature_weights \<Rightarrow> (string \<times> vectorizer) list \<Rightarrow> (string \<times> found_features) list" where
  "union_found doc fws srcs =
     concat (map (\<lambda>named. case source_result doc fws named of
                              Inr (Some (found, dws)) \<Rightarrow> [(fst named, found)]
                            | _ \<Rightarrow> []) srcs)"

section \<open>Example inputs\<close>

definition ex_weights :: feature_weights where
  "ex_weights = \<lparr>pos = [\<lparr>feature = Atomic ''good'', weight = 2\<rparr>, \<lparr>feature = Atomic ''fine'', weight = 1\<rparr>],
                  neg = [\<lparr>feature = Atomic ''bad'', weight = -1\<rparr>],
                  pos_remaining = 3, neg_remaining = 4\<rparr>"

definition ex_found :: "(string \<times> found_features) list" where
  "ex_found = [([], [((''pos'', 0), 2)])]"

definition ex_nothing_found :: "(string \<times> found_features) list" where
  "ex_nothing_found = [([], [])]"

definition ex_vec :: text_vectorizer where
  "ex_vec = \<lparr>analyzer = ''word'',
             build_span_analyzer =
               (\<lambda>doc. (Some (\<lambda>d. [([(0, 4)], ''good''), ([(5, 10)], ''movie'')]), doc))\<rparr>"

definition ex_no_weights :: feature_weights where
  "ex_no_weights = \<lparr>pos = [], neg = [], pos_remaining = 0, neg_remaining = 0\<rparr>"

definition ex_token_analyzer :: span_analyzer where
  "ex_token_analyzer d = (if d = [] then [] else [([(0, length d)], d)])"

definition ex_token_vec :: text_vectorizer where
  "ex_token_vec = \<lparr>analyzer = ''word'',
                   build_span_analyzer = (\<lambda>doc. (Some ex_token_analyzer, doc))\<rparr>"

definition ex_prefixed_weights :: feature_weights where
  "ex_prefixed_weights =
     \<lparr>pos = [\<lparr>feature = Atomic ''a__tok'', weight = 1\<rparr>], neg = [],
      pos_remaining = 0, neg_remaining = 0\<rparr>"

definition ex_union :: "(string \<times> vectorizer) list" where
  "ex_union = [(''w'', VectorizerMixin ex_token_vec), (''other'', OtherEstimator)]"

definition ex_shadowed_weights :: feature_weights where
  "ex_shadowed_weights =
     \<lparr>pos = [\<lparr>feature = Composite [''new'', ''york''], weight = 1\<rparr>,
             \<lparr>feature = Atomic ''york'', weight = 2\<rparr>],
      neg = [], pos_remaining = 0, neg_remaining = 0\<rparr>"

definition ex_composite_weights :: feature_weights where
  "ex_composite_weights =
     \<lparr>pos = [\<lparr>feature = Atomic ''york'', weight = 2\<rparr>,
             \<lparr>feature = Composite [''new'', ''york''], weight = 1\<rparr>],
      neg = [\<lparr>feature = Atomic ''bad'', weight = - 1\<rparr>],
      pos_remaining = 0, neg_remaining = 0\<rparr>"

definition ex_placeholder_vec :: text_vectorizer where
  "ex_placeholder_vec =
     \<lparr>analyzer = ''word'',
      build_span_analyzer =
        (\<lambda>doc. (Some ex_token_analyzer, if doc = [] then ''n/a'' else doc))\<rparr>"

definition ex_placeholder_weights :: feature_weights where
  "ex_placeholder_weights =
     \<lparr>pos = [\<lparr>feature = Atomic ''n/a'', weight = 1\<rparr>], neg = [],
      pos_remaining = 0, neg_remaining = 0\<rparr>"

definition ex_bias_weights :: feature_weights where
  "ex_bias_weights =
     \<lparr>pos = [\<lparr>feature = Formatted ''<BIAS>'', weight = 1\<rparr>], neg = [],
      pos_remaining = 0, neg_remaining = 0\<rparr>"

section \<open>Dictionaries and sorting\<close>

lemma map_of_dict_set: "map_of (dict_set k v d) = (map_of d)(k \<mapsto> v)"
  by (simp add: dict_set_def update_conv')

lemma dict_keys_dict_set: "dict_keys (dict_set k v d) = insert k (dict_keys d)"
  by (simp add: dict_keys_def dict_set_def dom_update)

lemma distinct_dict_set: "distinct (map fst d) \<Longrightarrow> distinct (map fst (dict_set k v d))"
  by (simp add: dict_set_def distinct_update)

lemma set_dict_set_subset: "set (dict_set k v d) \<subseteq> insert (k, v) (set d)"
  unfolding dict_set_def by (induction d) auto

lemma dict_keys_dict_update: "dict_keys (dict_update d e) = dict_keys d \<union> dict_keys e"
  unfolding dict_update_def
proof (induction e arbitrary: d)
  case Nil
  show ?case by (simp add: dict_keys_def)
next
  case (Cons p e)
  obtain k v where p: "p = (k, v)" by (cases p)
  have "dict_keys (p # e) = insert k (dict_keys e)"
    by (simp add: dict_keys_def p)
  then show ?case
    using Cons.IH [of "dict_set k v d"] by (simp add: p dict_keys_dict_set)
qed

lemma dict_get_dict_update:
  "dict_get (dict_update d e) k = (case map_of (rev e) k of Some v \<Rightarrow> Some v | None \<Rightarrow> dict_get d k)"
  unfolding dict_update_def
proof (induction e arbitrary: d)
  case Nil
  show ?case by simp
next
  case (Cons p e)
  obtain k' v' where p: "p = (k', v')" by (cases p)
  show ?case
    using Cons.IH [of "dict_set k' v' d"]
    by (auto simp: p map_of_dict_set map_add_def dict_get_def split: option.splits)
qed

lemma set_dict_update_subset: "set (dict_update d e) \<subseteq> set d \<union> set e"
  unfolding dict_update_def
proof (induction e arbitrary: d)
  case Nil
  show ?case by simp
next
  case (Cons p e)
  obtain k v where p: "p = (k, v)" by (cases p)
  show ?case
    using Cons.IH [of "dict_set k v d"] set_dict_set_subset [of k v d]
    by (auto simp: p)
qed

lemma dict_get_dict_of_items: "dict_get (dict_of_items items) k = map_of (rev items) k"
  by (simp add: dict_of_items_def dict_get_dict_update) (simp add: dict_get_def split: option.splits)

lemma dict_get_in_items: "dict_get (dict_of_items items) k = Some v \<Longrightarrow> (k, v) \<in> set items"
  by (simp add: dict_get_dict_of_items) (metis map_of_SomeD set_rev)

lemma sorted_sort_reverse: "sorted_wrt (\<lambda>a b. k a \<ge> k b) (sort_reverse k xs)"
proof -
  have "sorted (map k (sort_key k (rev xs)))" by simp
  then have "sorted_wrt (\<lambda>a b. k a \<le> k b) (sort_key k (rev xs))"
    by (simp add: sorted_wrt_map)
  then show ?thesis
    by (simp add: sort_reverse_def sorted_wrt_rev)
qed

lemma stable_sort_reverse:
  "filter (\<lambda>y. k y = m) (sort_reverse k xs) = filter (\<lambda>y. k y = m) xs"
  by (simp add: sort_reverse_def rev_filter [symmetric] sort_key_stable)

lemma mset_sort_reverse: "mset (sort_reverse k xs) = mset xs"
  by (simp add: sort_reverse_def)

lemma fold_summary_step:
  "fold summary_step nff items =
     items @ map (\<lambda>(name, found). \<lparr>feature = Formatted (highlighted_label name),
                                     weight = sum_list (map snd found)\<rparr>)
                 (filter (\<lambda>(name, found). found \<noteq> []) nff)"
  by (induction nff arbitrary: items) (auto simp: summary_step_def)

lemma map_of_unique_value:
  assumes "(k, v) \<in> set xs" and "\<And>v'. (k, v') \<in> set xs \<Longrightarrow> v' = v"
  shows "map_of xs k = Some v"
proof -
  from assms(1) obtain v' where v': "map_of xs k = Some v'"
    using weak_map_of_SomeI by fastforce
  then have "(k, v') \<in> set xs" by (rule map_of_SomeD)
  with assms(2) v' show ?thesis by simp
qed

lemma map_of_append_notin:
  assumes "k \<notin> fst ` set xs"
  shows "map_of (xs @ ys) k = map_of ys k"
proof -
  from assms have "map_of xs k = None" by (simp add: map_of_eq_None_iff)
  then show ?thesis by (simp add: map_add_def)
qed

lemma last_write_wins:
  assumes items: "items = xs @ ys @ zs"
    and notin: "k \<notin> fst ` set zs"
    and mem: "(k, v) \<in> set ys"
    and uniq: "\<And>v'. (k, v') \<in> set ys \<Longrightarrow> v' = v"
  shows "dict_get (dict_of_items items) k = Some v"
proof -
  have "map_of (rev ys) k = Some v"
  proof (rule map_of_unique_value)
    show "(k, v) \<in> set (rev ys)" using mem by simp
  next
    fix v' assume "(k, v') \<in> set (rev ys)"
    then have "(k, v') \<in> set ys" by simp
    then show "v' = v" by (rule uniq)
  qed
  then have one: "map_of (rev ys @ rev xs) k = Some v"
    by (simp add: map_add_def)
  have "k \<notin> fst ` set (rev zs)" using notin by simp
  then have "map_of (rev zs @ (rev ys @ rev xs)) k = map_of (rev ys @ rev xs) k"
    by (rule map_of_append_notin)
  with one have "map_of (rev (xs @ ys @ zs)) k = Some v"
    by simp
  then show ?thesis
    by (simp only: dict_get_dict_of_items items)
qed

lemma distinct_dict_get:
  "distinct (map fst d) \<Longrightarrow> (k, v) \<in> set d \<Longrightarrow> dict_get d k = Some v"
  by (simp add: dict_get_def)

section \<open>The enumeration of the feature weights\<close>

lemma keyed_entries_groups:
  "keyed_entries fws = group_entries ''pos'' (pos fws) @ group_entries ''neg'' (neg fws)"
proof -
  have "\<And>grp xs. concat (map (\<lambda>(idx, fw). [((grp, idx), fw)]) xs) = map (\<lambda>(idx, fw). ((grp :: string, idx :: nat), fw :: feature_weight)) xs"
    by (induct_tac xs) auto
  then show ?thesis
    by (simp add: keyed_entries_def group_entries_def getattr_group_def)
qed

lemma map_fst_group_entries: "map fst (group_entries grp xs) = map (Pair grp) [0..<length xs]"
proof -
  have "map fst (map (\<lambda>(idx, fw). ((grp, idx), fw)) ys) = map (Pair grp) (map fst ys)"
    for ys :: "(nat \<times> feature_weight) list"
    by (induction ys) auto
  then have "map fst (group_entries grp xs) = map (Pair grp) (map fst (enumerate 0 xs))"
    unfolding group_entries_def .
  then show ?thesis by simp
qed

lemma in_group_entries:
  "((g, i), fw) \<in> set (group_entries grp xs) \<longleftrightarrow> g = grp \<and> i < length xs \<and> xs ! i = fw"
  by (auto simp: group_entries_def in_set_enumerate_eq)

lemma distinct_keyed_entries: "distinct (map fst (keyed_entries fws))"
  by (auto simp: keyed_entries_groups map_fst_group_entries distinct_map inj_on_def)

lemma in_keyed_entries:
  "(key, fw) \<in> set (keyed_entries fws) \<longleftrightarrow> feature_weight_at fws key = Some fw"
  by (cases key) (auto simp: keyed_entries_groups in_group_entries feature_weight_at_def)

lemma in_concat_map: "x \<in> set (concat (map g es)) \<longleftrightarrow> (\<exists>e \<in> set es. x \<in> set (g e))"
  by auto

section \<open>The loops of the residual\<close>

lemma fold_unaccounted_step:
  "distinct (map fst es) \<Longrightarrow> fst ` set es \<inter> acc = {} \<Longrightarrow>
   fold (unaccounted_step af) es (items, acc) =
     (items @ map snd [e \<leftarrow> es. fst e \<notin> dict_keys af],
      acc \<union> (fst ` set es - dict_keys af))"
proof (induction es arbitrary: items acc)
  case Nil
  show ?case by simp
next
  case (Cons e es)
  obtain k fw where e: "e = (k, fw)" by (cases e)
  from Cons.prems have d: "distinct (map fst es)" and knew: "k \<notin> fst ` set es"
    and kacc: "k \<notin> acc" and disj: "fst ` set es \<inter> acc = {}"
    by (auto simp: e)
  show ?case
  proof (cases "k \<in> dict_keys af")
    case True
    have step: "unaccounted_step af e (items, acc) = (items, acc)"
      using True by (simp add: e unaccounted_step_def)
    have sets: "acc \<union> (fst ` set es - dict_keys af) = acc \<union> (fst ` set (e # es) - dict_keys af)"
      using True by (auto simp: e)
    have lists: "[x \<leftarrow> e # es. fst x \<notin> dict_keys af] = [x \<leftarrow> es. fst x \<notin> dict_keys af]"
      using True by (simp add: e)
    show ?thesis
      unfolding fold_simps step lists sets [symmetric] by (rule Cons.IH [OF d disj])
  next
    case False
    have step: "unaccounted_step af e (items, acc) = (items @ [fw], insert k acc)"
      using False kacc by (simp add: e unaccounted_step_def)
    have disj': "fst ` set es \<inter> insert k acc = {}"
      using disj knew by blast
    have sets: "insert k acc \<union> (fst ` set es - dict_keys af) = acc \<union> (fst ` set (e # es) - dict_keys af)"
      using False by (auto simp: e)
    have lists: "items @ map snd [x \<leftarrow> e # es. fst x \<notin> dict_keys af]
        = (items @ [fw]) @ map snd [x \<leftarrow> es. fst x \<notin> dict_keys af]"
      using False by (simp add: e)
    show ?thesis
      unfolding fold_simps step lists sets [symmetric] by (rule Cons.IH [OF d disj'])
  qed
qed

lemma unaccounted_loop_eq:
  "unaccounted_loop fws af =
     (map snd [e \<leftarrow> keyed_entries fws. fst e \<notin> dict_keys af],
      fst ` set (keyed_entries fws) - dict_keys af)"
  unfolding unaccounted_loop_def
  using fold_unaccounted_step [OF distinct_keyed_entries, of fws "{}" af "[]"] by simp

lemma dict_keys_all_found_features:
  "dict_keys (all_found_features nff) = (\<Union>named \<in> set nff. dict_keys (snd named))"
proof -
  have "\<And>acc. dict_keys (fold (\<lambda>(_, found) acc. dict_update acc found) nff acc)
          = dict_keys acc \<union> (\<Union>named \<in> set nff. dict_keys (snd named))"
    by (induction nff) (auto simp: dict_keys_dict_update)
  then show ?thesis by (simp add: all_found_features_def dict_keys_def)
qed

lemma mset_sign_partition:
  "mset [fw \<leftarrow> xs. weight fw \<ge> 0] + mset [fw \<leftarrow> xs. weight fw < 0] = mset (xs :: feature_weight list)"
  by (induction xs) auto

lemma mset_get_other:
  "mset (pos (get_other fws nff)) + mset (neg (get_other fws nff)) = mset (other_items_appended fws nff)"
proof -
  have "mset (pos (get_other fws nff)) + mset (neg (get_other fws nff)) =
      mset (other_items_sorted fws nff)"
    unfolding get_other_def Let_def by (simp only: feature_weights.simps mset_sign_partition)
  then show ?thesis
    by (simp add: other_items_sorted_def mset_sort_reverse)
qed

lemma other_items_appended_eq:
  "other_items_appended fws nff =
     fst (unaccounted_loop fws (all_found_features nff)) @
     map (\<lambda>(name, found). \<lparr>feature = Formatted (highlighted_label name),
                             weight = sum_list (map snd found)\<rparr>)
         [named \<leftarrow> nff. snd named \<noteq> []]"
proof -
  have "(\<lambda>(name, found). found \<noteq> []) = (\<lambda>named :: string \<times> found_features. snd named \<noteq> [])"
    by auto
  then show ?thesis
    by (simp add: other_items_appended_def fold_summary_step)
qed

lemma other_items_appended_order:
  "other_items_appended fws nff =
     map snd [e \<leftarrow> keyed_entries fws. fst e \<notin> (\<Union>named \<in> set nff. dict_keys (snd named))] @
     map (\<lambda>(name, found). \<lparr>feature = Formatted (highlighted_label name),
                             weight = sum_list (map snd found)\<rparr>)
         [named \<leftarrow> nff. snd named \<noteq> []]"
  by (subst other_items_appended_eq)
     (simp only: unaccounted_loop_eq fst_conv dict_keys_all_found_features)

lemma unmatched_in_residual:
  assumes mem: "(key, fw) \<in> set (keyed_entries fws)"
    and un: "key \<notin> (\<Union>named \<in> set nff. dict_keys (snd named))"
  shows "fw \<in> set (other_items_appended fws nff) \<and>
         (fw \<in> set (pos (get_other fws nff)) \<or> fw \<in> set (neg (get_other fws nff)))"
proof -
  have "(key, fw) \<in> set [e \<leftarrow> keyed_entries fws. fst e \<notin> dict_keys (all_found_features nff)]"
    using mem un by (simp add: dict_keys_all_found_features)
  then have "fw \<in> set (fst (unaccounted_loop fws (all_found_features nff)))"
    unfolding unaccounted_loop_eq fst_conv set_map by force
  then have a: "fw \<in> set (other_items_appended fws nff)"
    by (subst other_items_appended_eq) simp
  then have "fw \<in># mset (pos (get_other fws nff)) + mset (neg (get_other fws nff))"
    unfolding mset_get_other by simp
  then have "fw \<in> set (pos (get_other fws nff)) \<or> fw \<in> set (neg (get_other fws nff))"
    by simp
  with a show ?thesis by blast
qed

section \<open>The lookup table\<close>

lemma map_raising_Inr: "map_raising f xs = Inr ys \<longleftrightarrow> map f xs = map Inr ys"
proof (induction xs arbitrary: ys)
  case Nil
  show ?case by auto
next
  case (Cons x xs)
  show ?case
  proof (cases "f x")
    case (Inl e)
    then show ?thesis by (cases ys) auto
  next
    case (Inr y)
    note fx = this
    show ?thesis
    proof (cases "map_raising f xs")
      case (Inl e)
      have "map f xs \<noteq> map Inr zs" for zs
        using Cons.IH [of zs] Inl by auto
      then show ?thesis using fx Inl by (cases ys) auto
    next
      case (Inr zs)
      then have "map f xs = map Inr zs" using Cons.IH [of zs] by simp
      then have "map f xs = map Inr ys' \<longleftrightarrow> ys' = zs" for ys'
        by (auto simp: inj_map_eq_map inj_def)
      then show ?thesis using fx Inr by (cases ys) auto
    qed
  qed
qed

lemma map_raising_total:
  assumes "\<forall>x \<in> set xs. f x = Inr (g x)"
  shows "map_raising f xs = Inr (map g xs)"
  unfolding map_raising_Inr using assms by simp

lemma map_raising_results:
  assumes "map_raising f xs = Inr ys"
  shows "(\<forall>x \<in> set xs. \<exists>y. f x = Inr y) \<and>
         ys = map (\<lambda>x. case f x of Inl e \<Rightarrow> d | Inr y \<Rightarrow> y) xs"
proof -
  from assms have m: "map f xs = map Inr ys" by (simp only: map_raising_Inr)
  have a: "\<forall>x \<in> set xs. \<exists>y. f x = Inr y"
  proof
    fix x assume "x \<in> set xs"
    then have "f x \<in> set (map Inr ys)" using m by (metis image_eqI set_map)
    then show "\<exists>y. f x = Inr y" by auto
  qed
  have "map (\<lambda>x. case f x of Inl e \<Rightarrow> d | Inr y \<Rightarrow> y) xs =
      map (\<lambda>s. case s of Inl e \<Rightarrow> d | Inr y \<Rightarrow> y) (map f xs)"
    by (simp add: comp_def)
  also have "\<dots> = ys" unfolding m by (simp add: comp_def)
  finally show ?thesis using a by simp
qed

lemma concat_raising_results:
  assumes "concat_raising f xs = Inr ys"
  shows "(\<forall>x \<in> set xs. \<exists>zs. f x = Inr zs) \<and>
         ys = concat (map (\<lambda>x. case f x of Inl e \<Rightarrow> [] | Inr zs \<Rightarrow> zs) xs)"
proof -
  from assms obtain yss where yss: "map_raising f xs = Inr yss" and ys: "ys = concat yss"
    by (auto simp: concat_raising_def split: sum.splits)
  from map_raising_results [OF yss, of "[]"] ys show ?thesis by simp
qed

lemma concat_raising_total:
  assumes "\<forall>x \<in> set xs. f x = Inr (g x)"
  shows "concat_raising f xs = Inr (concat (map g xs))"
  by (simp add: concat_raising_def map_raising_total [OF assms])

lemma map_raising_append:
  "map_raising f (xs @ ys) =
     (case map_raising f xs of
        Inl e \<Rightarrow> Inl e
      | Inr a \<Rightarrow> (case map_raising f ys of Inl e \<Rightarrow> Inl e | Inr b \<Rightarrow> Inr (a @ b)))"
  by (induction xs) (auto split: sum.splits)

lemma concat_raising_append:
  "concat_raising f (xs @ ys) =
     (case concat_raising f xs of
        Inl e \<Rightarrow> Inl e
      | Inr a \<Rightarrow> (case concat_raising f ys of Inl e \<Rightarrow> Inl e | Inr b \<Rightarrow> Inr (a @ b)))"
  by (simp add: concat_raising_def map_raising_append split: sum.splits)

lemma map_raising_map: "map_raising f (map g xs) = map_raising (\<lambda>x. f (g x)) xs"
  by (induction xs) (auto split: sum.splits)

lemma concat_raising_map: "concat_raising f (map g xs) = concat_raising (\<lambda>x. f (g x)) xs"
  by (simp add: concat_raising_def map_raising_map)

text \<open>The table items of one keyed entry, when \<open>_get_features\<close> returns.\<close>

lemma table_items_keyed:
  "table_items fws fn =
     concat_raising
       (\<lambda>e. case get_features (feature (snd e)) fn of
              Inl err \<Rightarrow> Inl err
            | Inr fs \<Rightarrow> Inr (map (\<lambda>f. (f, (weight (snd e), fst e))) fs))
       (keyed_entries fws)"
proof -
  have two: "concat_raising G [a, b] =
      (case G a of Inl e \<Rightarrow> Inl e
       | Inr xs \<Rightarrow> (case G b of Inl e \<Rightarrow> Inl e | Inr ys \<Rightarrow> Inr (xs @ ys)))"
    for G :: "string \<Rightarrow> py_error + (ident \<times> real \<times> fkey) list" and a b
    by (simp add: concat_raising_def split: sum.splits)
  have grp: "concat_raising
        (\<lambda>(idx, fw).
           case get_features (feature fw) fn of
             Inl e \<Rightarrow> Inl e
           | Inr fs \<Rightarrow> Inr (map (\<lambda>f. (f, (weight fw, (g, idx)))) fs))
        (enumerate 0 xs) =
      concat_raising
        (\<lambda>e. case get_features (feature (snd e)) fn of
               Inl err \<Rightarrow> Inl err
             | Inr fs \<Rightarrow> Inr (map (\<lambda>f. (f, (weight (snd e), fst e))) fs))
        (group_entries g xs)" for g xs
    unfolding group_entries_def concat_raising_map
    by (rule arg_cong [where f = "\<lambda>h. concat_raising h (enumerate 0 xs)"])
       (auto simp: fun_eq_iff split: sum.splits)
  have g: "getattr_group fws ''pos'' = pos fws" "getattr_group fws ''neg'' = neg fws"
    by (simp_all add: getattr_group_def)
  show ?thesis
    unfolding table_items_def two grp g keyed_entries_groups concat_raising_append ..
qed

lemma table_items_Inr:
  assumes "table_items fws fn = Inr items"
  shows "items = concat (map (entry_items fn) (keyed_entries fws))"
    and "\<forall>e \<in> set (keyed_entries fws).
           get_features (feature (snd e)) fn = Inr (identifiers fn (feature (snd e)))"
proof -
  let ?f = "\<lambda>e. case get_features (feature (snd e)) fn of
              Inl err \<Rightarrow> Inl err
            | Inr fs \<Rightarrow> Inr (map (\<lambda>f. (f, (weight (snd e), fst e))) fs)"
  from assms have cr: "concat_raising ?f (keyed_entries fws) = Inr items"
    by (simp only: table_items_keyed)
  note res = concat_raising_results [OF cr]
  show ok: "\<forall>e \<in> set (keyed_entries fws).
           get_features (feature (snd e)) fn = Inr (identifiers fn (feature (snd e)))"
  proof
    fix e assume "e \<in> set (keyed_entries fws)"
    with res obtain zs where "?f e = Inr zs" by blast
    then show "get_features (feature (snd e)) fn = Inr (identifiers fn (feature (snd e)))"
      by (cases "get_features (feature (snd e)) fn") (auto simp: identifiers_def)
  qed
  have "(case ?f e of Inl e \<Rightarrow> [] | Inr zs \<Rightarrow> zs) = entry_items fn e" for e
    by (cases "get_features (feature (snd e)) fn") (auto simp: entry_items_def identifiers_def)
  then show "items = concat (map (entry_items fn) (keyed_entries fws))"
    using res by simp
qed

lemma in_table_items:
  assumes "table_items fws fn = Inr items"
  shows "(f, (w, key)) \<in> set items \<longleftrightarrow>
     (\<exists>fw. feature_weight_at fws key = Some fw \<and> weight fw = w \<and>
           f \<in> set (identifiers fn (feature fw)))"
proof -
  have "(f, (w, key)) \<in> set items \<longleftrightarrow>
      (\<exists>e \<in> set (keyed_entries fws). (f, (w, key)) \<in> set (entry_items fn e))"
    unfolding table_items_Inr(1) [OF assms] in_concat_map ..
  also have "\<dots> \<longleftrightarrow> (\<exists>e \<in> set (keyed_entries fws).
         fst e = key \<and> weight (snd e) = w \<and> f \<in> set (identifiers fn (feature (snd e))))"
    by (intro bex_cong refl) (simp add: entry_items_def image_iff, blast)
  also have "\<dots> \<longleftrightarrow> (\<exists>fw. (key, fw) \<in> set (keyed_entries fws) \<and> weight fw = w \<and>
           f \<in> set (identifiers fn (feature fw)))"
    by (metis fst_conv snd_conv prod.collapse)
  finally show ?thesis by (simp only: in_keyed_entries)
qed

lemma get_features_None:
  "get_features feat None =
     Inr (case feat of Composite names \<Rightarrow> map Name names | Atomic s \<Rightarrow> [Name s]
          | Formatted l \<Rightarrow> [Label l])"
  by (simp add: get_features_def)

lemma group_entries_nth:
  "group_entries grp xs = map (\<lambda>i. ((grp, i), xs ! i)) [0..<length xs]"
  unfolding group_entries_def enumerate_eq_zip
  by (rule nth_equalityI) auto

lemma keyed_entries_nth:
  "keyed_entries fws =
     map (\<lambda>i. ((''pos'', i), pos fws ! i)) [0..<length (pos fws)] @
     map (\<lambda>i. ((''neg'', i), neg fws ! i)) [0..<length (neg fws)]"
  by (simp only: keyed_entries_groups group_entries_nth)

lemma unmatched_originals:
  "map snd [e \<leftarrow> keyed_entries fws. fst e \<notin> M] =
     map (\<lambda>i. pos fws ! i) [i \<leftarrow> [0..<length (pos fws)]. (''pos'', i) \<notin> M] @
     map (\<lambda>i. neg fws ! i) [i \<leftarrow> [0..<length (neg fws)]. (''neg'', i) \<notin> M]"
  unfolding keyed_entries_nth
  by (simp add: filter_map comp_def)

lemma keys_of_keyed_entries:
  "fst ` set (keyed_entries fws) = {key. feature_weight_at fws key \<noteq> None}"
proof -
  have "key \<in> fst ` set (keyed_entries fws) \<longleftrightarrow> feature_weight_at fws key \<noteq> None" for key
  proof -
    have "key \<in> fst ` set (keyed_entries fws) \<longleftrightarrow> (\<exists>fw. (key, fw) \<in> set (keyed_entries fws))"
      by force
    then show ?thesis by (simp add: in_keyed_entries)
  qed
  then show ?thesis by blast
qed

lemma valid_keys:
  "{key. feature_weight_at fws key \<noteq> None} =
     {''pos''} \<times> {..<length (pos fws)} \<union> {''neg''} \<times> {..<length (neg fws)}"
  by (auto simp: feature_weight_at_def split: if_splits)

section \<open>The examples of the residual\<close>

lemma ex_keyed: "keyed_entries ex_weights = [((''pos'', 0), \<lparr>feature = Atomic ''good'', weight = 2\<rparr>), ((''pos'', 1), \<lparr>feature = Atomic ''fine'', weight = 1\<rparr>),
   ((''neg'', 0), \<lparr>feature = Atomic ''bad'', weight = -1\<rparr>)]"
  by (simp add: keyed_entries_def ex_weights_def getattr_group_def enumerate_eq_zip upt_rec)

lemma ex_all_found: "all_found_features ex_found = [((''pos'', 0), 2)]"
  by (simp add: all_found_features_def ex_found_def dict_update_def dict_set_def)

lemma ex_unaccounted: "unaccounted_loop ex_weights (all_found_features ex_found) =
   ([\<lparr>feature = Atomic ''fine'', weight = 1\<rparr>, \<lparr>feature = Atomic ''bad'', weight = -1\<rparr>], {(''pos'', 1), (''neg'', 0)})"
  by (auto simp add: unaccounted_loop_def ex_keyed ex_all_found unaccounted_step_def dict_keys_def)

lemma ex_appended: "other_items_appended ex_weights ex_found =
   [\<lparr>feature = Atomic ''fine'', weight = 1\<rparr>, \<lparr>feature = Atomic ''bad'', weight = -1\<rparr>,
    \<lparr>feature = Formatted ''Highlighted in text (sum)'', weight = 2\<rparr>]"
  by (simp add: other_items_appended_def ex_unaccounted) (simp add: ex_found_def summary_step_def highlighted_label_def)

lemma ex_sorted: "other_items_sorted ex_weights ex_found =
   [\<lparr>feature = Formatted ''Highlighted in text (sum)'', weight = 2\<rparr>,
   \<lparr>feature = Atomic ''fine'', weight = 1\<rparr>, \<lparr>feature = Atomic ''bad'', weight = -1\<rparr>]"
  by (simp add: other_items_sorted_def ex_appended sort_reverse_def)

lemma ex_other: "get_other ex_weights ex_found =
   \<lparr>pos = [\<lparr>feature = Formatted ''Highlighted in text (sum)'', weight = 2\<rparr>, \<lparr>feature = Atomic ''fine'', weight = 1\<rparr>],
    neg = [\<lparr>feature = Atomic ''bad'', weight = -1\<rparr>], pos_remaining = 3, neg_remaining = 4\<rparr>"
  by (simp add: get_other_def ex_sorted) (simp add: ex_weights_def)

section \<open>The matching loop\<close>

lemma get_doc_weighted_spans_eq:
  "get_doc_weighted_spans doc vec fws fn =
     (case analysed doc vec of
        None \<Rightarrow> Inr None
      | Some (tv, sa, pdoc) \<Rightarrow>
          (case feature_weights_dict fws fn of
             Inl e \<Rightarrow> Inl e
           | Inr table \<Rightarrow>
               Inr (Some (snd (match_loop table (sa pdoc)),
                          \<lparr>document = pdoc,
                           spans = fst (match_loop table (sa pdoc)),
                           preserve_density = startswith (analyzer tv) ''char'',
                           vec_name = None\<rparr>))))"
  by (simp add: get_doc_weighted_spans_def analysed_def Let_def case_prod_unfold
        split: vectorizer.splits option.splits prod.splits sum.splits)

lemma get_doc_weighted_spans_Some:
  assumes "get_doc_weighted_spans doc vec fws fn = Inr (Some (found, dws))"
  obtains tv sa pdoc table where
    "analysed doc vec = Some (tv, sa, pdoc)" and "feature_weights_dict fws fn = Inr table"
    and "found = snd (match_loop table (sa pdoc))"
    and "dws = \<lparr>document = pdoc, spans = fst (match_loop table (sa pdoc)),
                 preserve_density = startswith (analyzer tv) ''char'', vec_name = None\<rparr>"
  using assms unfolding get_doc_weighted_spans_eq
  by (auto split: option.splits sum.splits)

lemma fold_match_step_spans:
  "fst (fold (match_step table) pairs (s0, f0)) = s0 @ concat (map (span_entry table) pairs)"
proof (induction pairs arbitrary: s0 f0)
  case Nil
  show ?case by simp
next
  case (Cons p pairs)
  obtain fs f where p: "p = (fs, f)" by (cases p)
  show ?case
  proof (cases "dict_get table (Name f)")
    case None
    then have "match_step table p (s0, f0) = (s0, f0)"
      by (simp add: match_step_def p)
    then show ?thesis using Cons.IH [of s0 f0] None by (simp add: span_entry_def p)
  next
    case (Some wk)
    obtain w k where wk: "wk = (w, k)" by (cases wk)
    have "match_step table p (s0, f0) = (s0 @ [(f, fs, w)], dict_set k w f0)"
      using Some by (simp add: match_step_def p wk)
    then show ?thesis
      using Cons.IH [of "s0 @ [(f, fs, w)]" "dict_set k w f0"] Some
      by (simp add: span_entry_def p wk)
  qed
qed

lemma fold_match_step_found:
  "(k, w) \<in> set (snd (fold (match_step table) pairs (s0, f0))) \<Longrightarrow>
   (k, w) \<in> set f0 \<or> (\<exists>p \<in> set pairs. dict_get table (Name (snd p)) = Some (w, k))"
proof (induction pairs arbitrary: s0 f0)
  case Nil
  then show ?case by simp
next
  case (Cons p pairs)
  obtain fs f where p: "p = (fs, f)" by (cases p)
  show ?case
  proof (cases "dict_get table (Name f)")
    case None
    then have "match_step table p (s0, f0) = (s0, f0)"
      by (simp add: match_step_def p)
    then have "(k, w) \<in> set (snd (fold (match_step table) pairs (s0, f0)))"
      using Cons.prems by simp
    from Cons.IH [OF this] show ?thesis by auto
  next
    case (Some wk)
    obtain w' k' where wk: "wk = (w', k')" by (cases wk)
    have "match_step table p (s0, f0) = (s0 @ [(f, fs, w')], dict_set k' w' f0)"
      using Some by (simp add: match_step_def p wk)
    then have "(k, w) \<in> set (snd (fold (match_step table) pairs (s0 @ [(f, fs, w')], dict_set k' w' f0)))"
      using Cons.prems by simp
    from Cons.IH [OF this] have "(k, w) \<in> set (dict_set k' w' f0) \<or>
        (\<exists>p \<in> set pairs. dict_get table (Name (snd p)) = Some (w, k))" .
    moreover have "(k, w) \<in> set (dict_set k' w' f0) \<Longrightarrow> (k, w) = (k', w') \<or> (k, w) \<in> set f0"
      using set_dict_set_subset [of k' w' f0] by blast
    ultimately show ?thesis using Some by (auto simp: p wk)
  qed
qed

lemma fold_match_step_keys:
  "dict_keys (snd (fold (match_step table) pairs (s0, f0))) =
     dict_keys f0 \<union> {k. \<exists>p \<in> set pairs. \<exists>w. dict_get table (Name (snd p)) = Some (w, k)}"
proof (induction pairs arbitrary: s0 f0)
  case Nil
  show ?case by simp
next
  case (Cons p pairs)
  obtain fs f where p: "p = (fs, f)" by (cases p)
  show ?case
  proof (cases "dict_get table (Name f)")
    case None
    then have "match_step table p (s0, f0) = (s0, f0)"
      by (simp add: match_step_def p)
    then show ?thesis using Cons.IH [of s0 f0] None by (auto simp: p)
  next
    case (Some wk)
    obtain w' k' where wk: "wk = (w', k')" by (cases wk)
    have "match_step table p (s0, f0) = (s0 @ [(f, fs, w')], dict_set k' w' f0)"
      using Some by (simp add: match_step_def p wk)
    then show ?thesis
      using Cons.IH [of "s0 @ [(f, fs, w')]" "dict_set k' w' f0"] Some
      by (auto simp: p wk dict_keys_dict_set)
  qed
qed

lemma fold_match_step_distinct:
  "distinct (map fst f0) \<Longrightarrow> distinct (map fst (snd (fold (match_step table) pairs (s0, f0))))"
proof (induction pairs arbitrary: s0 f0)
  case Nil
  then show ?case by simp
next
  case (Cons p pairs)
  obtain fs f where p: "p = (fs, f)" by (cases p)
  show ?case
  proof (cases "dict_get table (Name f)")
    case None
    then have "match_step table p (s0, f0) = (s0, f0)"
      by (simp add: match_step_def p)
    then show ?thesis using Cons.IH [of f0 s0] Cons.prems by simp
  next
    case (Some wk)
    obtain w' k' where wk: "wk = (w', k')" by (cases wk)
    have "match_step table p (s0, f0) = (s0 @ [(f, fs, w')], dict_set k' w' f0)"
      using Some by (simp add: match_step_def p wk)
    then show ?thesis
      using Cons.IH [of "dict_set k' w' f0" "s0 @ [(f, fs, w')]"] distinct_dict_set [OF Cons.prems]
      by simp
  qed
qed

lemma match_loop_distinct:
  "distinct (map fst (snd (match_loop table pairs)))"
  unfolding match_loop_def by (rule fold_match_step_distinct) simp

lemma match_loop_spans:
  "fst (match_loop table pairs) = concat (map (span_entry table) pairs)"
  unfolding match_loop_def by (simp add: fold_match_step_spans)

lemma match_loop_keys:
  "dict_keys (snd (match_loop table pairs)) =
     {k. \<exists>p \<in> set pairs. \<exists>w. dict_get table (Name (snd p)) = Some (w, k)}"
  unfolding match_loop_def fold_match_step_keys by (simp add: dict_keys_def)

lemma in_span_entries:
  "(f, f_spans, w) \<in> set (concat (map (span_entry table) pairs)) \<longleftrightarrow>
     ((f_spans, f) \<in> set pairs \<and> (\<exists>key. dict_get table (Name f) = Some (w, key)))"
proof -
  have one: "(f, f_spans, w) \<in> set (span_entry table p) \<longleftrightarrow>
      (p = (f_spans, f) \<and> (\<exists>key. dict_get table (Name f) = Some (w, key)))" for p
  proof (cases "dict_get table (Name (snd p))")
    case None
    then show ?thesis by (cases p) (auto simp: span_entry_def)
  next
    case (Some wk)
    then show ?thesis by (cases p; cases wk) (auto simp: span_entry_def)
  qed
  show ?thesis
    unfolding in_concat_map one by blast
qed

lemma fold_match_step_empty_table: "fold (match_step []) pairs st = st"
proof (induction pairs arbitrary: st)
  case Nil
  show ?case by simp
next
  case (Cons p pairs)
  have "match_step [] p st = st"
    by (cases p; cases st) (simp add: match_step_def dict_get_def)
  then show ?case using Cons.IH by simp
qed

lemma match_loop_empty_table: "match_loop [] pairs = ([], [])"
  by (simp add: match_loop_def fold_match_step_empty_table)

lemma match_loop_no_pairs: "match_loop table [] = ([], [])"
  by (simp add: match_loop_def)

lemma span_entries_selection:
  "map (\<lambda>(f, f_spans, w). (f_spans, f)) (concat (map (span_entry table) pairs)) =
     [p \<leftarrow> pairs. dict_get table (Name (snd p)) \<noteq> None]"
proof (induction pairs)
  case Nil
  show ?case by simp
next
  case (Cons p pairs)
  show ?case
  proof (cases "dict_get table (Name (snd p))")
    case None
    then show ?thesis using Cons.IH by (simp add: span_entry_def)
  next
    case (Some wk)
    then show ?thesis using Cons.IH by (cases wk; cases p) (simp add: span_entry_def)
  qed
qed

lemma analysed_None:
  "analysed doc vec = None \<longleftrightarrow>
     (case (case vec of InvertableHashingVectorizer v \<Rightarrow> v | _ \<Rightarrow> vec) of
        VectorizerMixin tv \<Rightarrow> fst (build_span_analyzer tv doc) = None
      | _ \<Rightarrow> True)"
  by (simp add: analysed_def split: vectorizer.splits option.splits prod.splits)

section \<open>The lookup table and the original weights\<close>

lemma table_sound:
  assumes "feature_weights_dict fws fn = Inr table"
    and "dict_get table f = Some (w, key)"
  shows "\<exists>fw. feature_weight_at fws key = Some fw \<and> weight fw = w \<and>
              get_features (feature fw) fn = Inr (identifiers fn (feature fw)) \<and>
              f \<in> set (identifiers fn (feature fw))"
proof -
  from assms(1) obtain items where items: "table_items fws fn = Inr items"
    and table: "table = dict_of_items items"
    by (auto simp: feature_weights_dict_def split: sum.splits)
  have "(f, (w, key)) \<in> set items"
    using assms(2) unfolding table by (rule dict_get_in_items)
  then obtain fw where fw: "feature_weight_at fws key = Some fw" "weight fw = w"
      "f \<in> set (identifiers fn (feature fw))"
    unfolding in_table_items [OF items] by blast
  from fw(1) have "(key, fw) \<in> set (keyed_entries fws)" by (simp only: in_keyed_entries)
  with table_items_Inr(2) [OF items]
  have "get_features (feature fw) fn = Inr (identifiers fn (feature fw))" by force
  with fw show ?thesis by blast
qed

lemma dict_entry_in_items:
  assumes "feature_weights_dict fws fn = Inr table" and "entry \<in> set table"
  shows "\<exists>items. table_items fws fn = Inr items \<and> entry \<in> set items"
proof -
  from assms(1) obtain items where items: "table_items fws fn = Inr items"
    and table: "table = dict_of_items items"
    by (auto simp: feature_weights_dict_def split: sum.splits)
  have "entry \<in> set items"
    using assms(2) set_dict_update_subset [of "[]" items]
    unfolding table dict_of_items_def by auto
  with items show ?thesis by blast
qed

lemma match_loop_found_sound:
  assumes "feature_weights_dict fws fn = Inr table"
    and "(key, w) \<in> set (snd (match_loop table pairs))"
  shows "\<exists>fw. feature_weight_at fws key = Some fw \<and> weight fw = w \<and>
              identifiers fn (feature fw) \<noteq> []"
proof -
  from assms(2) have "(key, w) \<in> set ([] :: found_features) \<or>
      (\<exists>p \<in> set pairs. dict_get table (Name (snd p)) = Some (w, key))"
    unfolding match_loop_def by (rule fold_match_step_found)
  then obtain p where "dict_get table (Name (snd p)) = Some (w, key)"
    by auto
  from table_sound [OF assms(1) this] show ?thesis by fastforce
qed

lemma match_loop_span_sound:
  assumes "feature_weights_dict fws fn = Inr table"
    and "(f, f_spans, w) \<in> set (fst (match_loop table pairs))"
  shows "\<exists>key fw. dict_get table (Name f) = Some (w, key) \<and>
           feature_weight_at fws key = Some fw \<and> weight fw = w \<and>
           dict_get (snd (match_loop table pairs)) key = Some w"
proof -
  let ?found = "snd (match_loop table pairs)"
  from assms(2) obtain key where mem: "(f_spans, f) \<in> set pairs"
    and hit: "dict_get table (Name f) = Some (w, key)"
    unfolding match_loop_spans in_span_entries by blast
  from table_sound [OF assms(1) hit] obtain fw where
    fw: "feature_weight_at fws key = Some fw" "weight fw = w"
    by blast
  have "key \<in> dict_keys ?found"
    unfolding match_loop_keys using mem hit by force
  then obtain w' where w': "(key, w') \<in> set ?found"
    by (auto simp: dict_keys_def)
  from match_loop_found_sound [OF assms(1) w'] fw have "w' = w" by auto
  with w' have "dict_get ?found key = Some w"
    using distinct_dict_get [OF match_loop_distinct] by blast
  with hit fw show ?thesis by blast
qed

lemma table_key_has_identifier:
  assumes "feature_weights_dict fws fn = Inr table"
    and "entry \<in> set table" and "snd (snd entry) = key"
    and "feature_weight_at fws key = Some fw"
  shows "identifiers fn (feature fw) \<noteq> []"
proof -
  obtain f w where entry: "entry = (f, (w, key))"
    using assms(3) by (cases entry) auto
  from dict_entry_in_items [OF assms(1,2)] obtain items where
    items: "table_items fws fn = Inr items" and "(f, (w, key)) \<in> set items"
    by (auto simp: entry)
  then show ?thesis
    unfolding in_table_items [OF items] using assms(4) by auto
qed

lemma found_key_has_identifier:
  assumes "get_doc_weighted_spans doc vec fws fn = Inr (Some (found, dws))"
    and "key \<in> dict_keys found" and "feature_weight_at fws key = Some fw"
  shows "identifiers fn (feature fw) \<noteq> []"
proof -
  from assms(1) obtain tv sa pdoc table where
    "analysed doc vec = Some (tv, sa, pdoc)"
    and table: "feature_weights_dict fws fn = Inr table"
    and found: "found = snd (match_loop table (sa pdoc))"
    and "dws = \<lparr>document = pdoc, spans = fst (match_loop table (sa pdoc)),
                 preserve_density = startswith (analyzer tv) ''char'', vec_name = None\<rparr>"
    by (rule get_doc_weighted_spans_Some)
  from assms(2) obtain w where "(key, w) \<in> set found"
    by (auto simp: dict_keys_def)
  from match_loop_found_sound [OF table this [unfolded found]] assms(3) show ?thesis by auto
qed

section \<open>The union\<close>

lemma fold_union_step:
  "fold_raising (union_step doc fws) srcs (ds, nf) =
     (if \<forall>named \<in> set srcs. \<exists>r. source_result doc fws named = Inr r
      then Inr (ds @ union_docs doc fws srcs, nf @ union_found doc fws srcs)
      else Inl AttributeError)"
proof (induction srcs arbitrary: ds nf)
  case Nil
  show ?case by (simp add: union_docs_def union_found_def)
next
  case (Cons named srcs)
  obtain name vec where named: "named = (name, vec)" by (cases named)
  show ?case
  proof (cases "source_result doc fws named")
    case (Inl e)
    then have "union_step doc fws named (ds, nf) = Inl AttributeError"
      by (cases e) (simp add: union_step_def source_result_def named)
    then show ?thesis using Inl by auto
  next
    case (Inr r)
    show ?thesis
    proof (cases r)
      case None
      then have "union_step doc fws named (ds, nf) = Inr (ds, nf)"
        using Inr by (simp add: union_step_def source_result_def named)
      then show ?thesis
        using Cons.IH [of ds nf] Inr None by (simp add: union_docs_def union_found_def)
    next
      case (Some fd)
      obtain found dws where fd: "fd = (found, dws)" by (cases fd)
      have "union_step doc fws named (ds, nf) =
          Inr (ds @ [dws\<lparr>vec_name := Some name\<rparr>], nf @ [(name, found)])"
        using Inr Some by (simp add: union_step_def source_result_def named fd)
      then show ?thesis
        using Cons.IH [of "ds @ [dws\<lparr>vec_name := Some name\<rparr>]" "nf @ [(name, found)]"] Inr Some
        by (simp add: union_docs_def union_found_def named fd)
    qed
  qed
qed

lemma union_loop_eq:
  "union_loop doc srcs fws =
     (if \<forall>named \<in> set srcs. \<exists>r. source_result doc fws named = Inr r
      then Inr (union_docs doc fws srcs, union_found doc fws srcs)
      else Inl AttributeError)"
  unfolding union_loop_def fold_union_step by simp



lemma union_found_mem:
  assumes "named \<in> set (union_found doc fws srcs)"
  shows "\<exists>src \<in> set srcs. \<exists>dws.
           fst src = fst named \<and> source_result doc fws src = Inr (Some (snd named, dws))"
proof -
  from assms obtain src where src: "src \<in> set srcs"
    and mem: "named \<in> set (case source_result doc fws src of
                              Inr (Some (found, dws)) \<Rightarrow> [(fst src, found)]
                            | _ \<Rightarrow> [])"
    unfolding union_found_def in_concat_map by blast
  have "\<exists>found dws. source_result doc fws src = Inr (Some (found, dws)) \<and>
      named = (fst src, found)"
  proof (cases "source_result doc fws src")
    case (Inl e)
    with mem show ?thesis by simp
  next
    case (Inr r)
    show ?thesis
    proof (cases r)
      case None
      with mem Inr show ?thesis by simp
    next
      case (Some fd)
      with mem Inr show ?thesis by (cases fd) simp
    qed
  qed
  then obtain found dws where "source_result doc fws src = Inr (Some (found, dws))"
    and "named = (fst src, found)"
    by blast
  then have "fst src = fst named \<and> source_result doc fws src = Inr (Some (snd named, dws))"
    by simp
  with src show ?thesis by blast
qed


section \<open>The name filter\<close>

lemma feature_fn_of_Some:
  "feature_fn_of name (Name x) = Inr (Some y) \<longleftrightarrow> x = name @ ''__'' @ y"
proof -
  let ?p = "name @ ''__''"
  have "feature_fn_of name (Name x) = Inr (Some y) \<longleftrightarrow>
      take (length ?p) x = ?p \<and> drop (length ?p) x = y"
    by (simp add: feature_fn_of_def startswith_def Let_def)
  also have "\<dots> \<longleftrightarrow> x = ?p @ y"
  proof
    assume "take (length ?p) x = ?p \<and> drop (length ?p) x = y"
    then have "take (length ?p) x @ drop (length ?p) x = ?p @ y" by simp
    then show "x = ?p @ y" by (simp only: append_take_drop_id)
  next
    assume "x = ?p @ y"
    then show "take (length ?p) x = ?p \<and> drop (length ?p) x = y" by simp
  qed
  finally show ?thesis by simp
qed

lemma get_features_other_prefix:
  "get_features (Atomic ''a__tok'') (Some (feature_fn_of ''b'')) = Inr []"
  by (simp add: get_features_def feature_fn_of_def startswith_def)

lemma get_features_own_prefix:
  "get_features (Atomic ''a__tok'') (Some (feature_fn_of ''a'')) = Inr [Name ''tok'']"
  by (simp add: get_features_def feature_fn_of_def startswith_def)

section \<open>The guards and the edge cases\<close>

lemma analysed_Some:
  "analysed doc vec = Some (tv, sa, pdoc) \<longleftrightarrow>
     (case vec of InvertableHashingVectorizer v \<Rightarrow> v | _ \<Rightarrow> vec) = VectorizerMixin tv \<and>
     build_span_analyzer tv doc = (Some sa, pdoc)"
  by (auto simp: analysed_def split: vectorizer.splits option.splits prod.splits)

lemma feature_weights_dict_empty:
  "pos fws = [] \<Longrightarrow> neg fws = [] \<Longrightarrow> feature_weights_dict fws fn = Inr []"
  by (simp add: feature_weights_dict_def table_items_keyed keyed_entries_nth
        concat_raising_def dict_of_items_def dict_update_def)

section \<open>The last write to the lookup table\<close>

lemma upt_split: "i < n \<Longrightarrow> [0..<n] = [0..<i] @ [i] @ [Suc i..<n]"
proof -
  assume i: "i < n"
  then have "[0..<n] = [0..<i] @ [i..<n]"
    using upt_add_eq_append [of 0 i "n - i"] by simp
  also have "[i..<n] = i # [Suc i..<n]" using i by (rule upt_conv_Cons)
  finally show ?thesis by simp
qed

lemma keyed_entries_split:
  assumes "feature_weight_at fws key = Some fw"
  shows "\<exists>before after.
           keyed_entries fws = before @ [(key, fw)] @ after \<and>
           (\<forall>e \<in> set after. enumerated_before key (fst e) \<and>
                               feature_weight_at fws (fst e) = Some (snd e))"
proof -
  let ?P = "\<lambda>i. ((''pos'', i), pos fws ! i)"
  let ?N = "\<lambda>i. ((''neg'', i), neg fws ! i)"
  obtain g i where key: "key = (g, i)" by (cases key)
  have valid: "\<forall>e \<in> set after. feature_weight_at fws (fst e) = Some (snd e)"
    if "keyed_entries fws = before @ [(key, fw)] @ after" for before after
  proof
    fix e assume "e \<in> set after"
    then have "(fst e, snd e) \<in> set (keyed_entries fws)" unfolding that by simp
    then show "feature_weight_at fws (fst e) = Some (snd e)" by (simp only: in_keyed_entries)
  qed
  consider (p) "g = ''pos''" "i < length (pos fws)" "fw = pos fws ! i"
    | (n) "g = ''neg''" "i < length (neg fws)" "fw = neg fws ! i"
    using assms by (auto simp: key feature_weight_at_def split: if_splits)
  then show ?thesis
  proof cases
    case p
    let ?before = "map ?P [0..<i]"
    let ?after = "map ?P [Suc i..<length (pos fws)] @ map ?N [0..<length (neg fws)]"
    have split: "keyed_entries fws = ?before @ [(key, fw)] @ ?after"
      unfolding keyed_entries_nth upt_split [OF p(2)] by (simp add: key p)
    have "\<forall>e \<in> set ?after. enumerated_before key (fst e)"
      by (auto simp: enumerated_before_def key p)
    with split valid [OF split] show ?thesis by blast
  next
    case n
    let ?before = "map ?P [0..<length (pos fws)] @ map ?N [0..<i]"
    let ?after = "map ?N [Suc i..<length (neg fws)]"
    have split: "keyed_entries fws = ?before @ [(key, fw)] @ ?after"
      unfolding keyed_entries_nth upt_split [OF n(2)] by (simp add: key n)
    have "\<forall>e \<in> set ?after. enumerated_before key (fst e)"
      by (auto simp: enumerated_before_def key n)
    with split valid [OF split] show ?thesis by blast
  qed
qed

lemma table_lookup_last:
  assumes table: "feature_weights_dict fws fn = Inr table"
    and at: "feature_weight_at fws key = Some fw"
    and f: "f \<in> set (identifiers fn (feature fw))"
    and later: "\<forall>key' fw'. enumerated_before key key' \<and> feature_weight_at fws key' = Some fw' \<longrightarrow>
                  f \<notin> set (identifiers fn (feature fw'))"
  shows "dict_get table f = Some (weight fw, key)"
proof -
  from table obtain items where items: "table_items fws fn = Inr items"
    and t: "table = dict_of_items items"
    by (auto simp: feature_weights_dict_def split: sum.splits)
  from keyed_entries_split [OF at] obtain before after where
    split: "keyed_entries fws = before @ [(key, fw)] @ after"
    and after: "\<forall>e \<in> set after. enumerated_before key (fst e) \<and>
                               feature_weight_at fws (fst e) = Some (snd e)"
    by blast
  let ?xs = "concat (map (entry_items fn) before)"
  let ?ys = "entry_items fn (key, fw)"
  let ?zs = "concat (map (entry_items fn) after)"
  have eq: "items = ?xs @ ?ys @ ?zs"
    unfolding table_items_Inr(1) [OF items] split by simp
  have notin: "f \<notin> fst ` set ?zs"
  proof
    assume "f \<in> fst ` set ?zs"
    then obtain e where e: "e \<in> set after" and "f \<in> fst ` set (entry_items fn e)"
      by auto
    then have "f \<in> set (identifiers fn (feature (snd e)))"
      by (auto simp: entry_items_def)
    with later after e show False by blast
  qed
  have mem: "(f, (weight fw, key)) \<in> set ?ys"
    using f by (auto simp: entry_items_def)
  have uniq: "v' = (weight fw, key)" if "(f, v') \<in> set ?ys" for v'
    using that by (auto simp: entry_items_def)
  show ?thesis
    unfolding t using eq notin mem uniq by (rule last_write_wins)
qed

lemma table_hit_matches:
  assumes table: "feature_weights_dict fws fn = Inr table"
    and hit: "dict_get table (Name f) = Some (w, key)"
    and an: "analysed doc vec = Some (tv, sa, pdoc)"
    and disc: "(f_spans, f) \<in> set (sa pdoc)"
  shows "\<exists>found dws. get_doc_weighted_spans doc vec fws fn = Inr (Some (found, dws)) \<and>
           dict_get found key = Some w \<and> (f, f_spans, w) \<in> set (spans dws)"
proof -
  have sp: "(f, f_spans, w) \<in> set (fst (match_loop table (sa pdoc)))"
    unfolding match_loop_spans in_span_entries using hit disc by blast
  from match_loop_span_sound [OF table sp] hit
  have "dict_get (snd (match_loop table (sa pdoc))) key = Some w" by auto
  with sp show ?thesis
    unfolding get_doc_weighted_spans_eq an by (simp add: table)
qed

lemma map_raising_feature_fn_of:
  "map_raising (feature_fn_of name) (map Name names) =
     Inr (map (\<lambda>s. if startswith s (name @ ''__'')
                    then Some (drop (length (name @ ''__'')) s) else None) names)"
  by (induction names) (simp_all add: feature_fn_of_def Let_def)

lemma get_features_composite_filter:
  "get_features (Composite names) (Some (feature_fn_of name)) =
     Inr (map Name (filter_truthy
            (map (\<lambda>s. if startswith s (name @ ''__'')
                       then Some (drop (length (name @ ''__'')) s) else None) names)))"
  by (simp add: get_features_def map_raising_feature_fn_of)

lemma get_features_of_valid:
  assumes "feature_weights_dict fws fn = Inr table" and "feature_weight_at fws key = Some fw"
  shows "get_features (feature fw) fn = Inr (identifiers fn (feature fw))"
proof -
  from assms(1) obtain items where items: "table_items fws fn = Inr items"
    by (auto simp: feature_weights_dict_def split: sum.splits)
  from assms(2) have "(key, fw) \<in> set (keyed_entries fws)" by (simp only: in_keyed_entries)
  with table_items_Inr(2) [OF items] show ?thesis by force
qed

section \<open>The single vectorizer\<close>

lemma get_weighted_spans_single:
  assumes "\<forall>srcs. vec \<noteq> FeatureUnion srcs"
    and "get_doc_weighted_spans doc vec fws None = Inr (Some (found, dws))"
  shows "get_weighted_spans doc vec fws =
           Inr (Some \<lparr>docs = [dws], other = get_other fws [([], found)]\<rparr>)"
  using assms by (cases vec) (simp_all add: get_weighted_spans_def)

section \<open>The examples of the alignment\<close>

lemma ex_table:
  "feature_weights_dict ex_weights None =
     Inr [(Name ''good'', 2, ''pos'', 0), (Name ''fine'', 1, ''pos'', 1),
          (Name ''bad'', - 1, ''neg'', 0)]"
  by (simp add: feature_weights_dict_def table_items_keyed ex_keyed concat_raising_def
        get_features_def dict_of_items_def dict_update_def dict_set_def)

lemma ex_aligned:
  "get_doc_weighted_spans ''good movie'' (VectorizerMixin ex_vec) ex_weights None =
     Inr (Some ([((''pos'', 0), 2)],
                \<lparr>document = ''good movie'', spans = [(''good'', [(0, 4)], 2)],
                 preserve_density = False, vec_name = None\<rparr>))"
  by (simp add: get_doc_weighted_spans_def ex_vec_def ex_table match_loop_def match_step_def
        dict_get_def dict_set_def startswith_def)

lemma ex_token_empty:
  "(case VectorizerMixin ex_token_vec of InvertableHashingVectorizer v \<Rightarrow> v | _ \<Rightarrow> VectorizerMixin ex_token_vec)
     = VectorizerMixin ex_token_vec \<and>
   build_span_analyzer ex_token_vec [] = (Some ex_token_analyzer, [])"
  by (simp add: ex_token_vec_def)

lemma ex_token_hashing:
  "(case InvertableHashingVectorizer (VectorizerMixin ex_token_vec) of
      InvertableHashingVectorizer v \<Rightarrow> v
    | _ \<Rightarrow> InvertableHashingVectorizer (VectorizerMixin ex_token_vec))
     = VectorizerMixin ex_token_vec \<and>
   build_span_analyzer ex_token_vec ''good movie'' = (Some ex_token_analyzer, ''good movie'')"
  by (simp add: ex_token_vec_def)

lemma ex_placeholder_table:
  "feature_weights_dict ex_placeholder_weights None = Inr [(Name ''n/a'', 1, ''pos'', 0)]"
  by (simp add: feature_weights_dict_def table_items_keyed keyed_entries_nth
        ex_placeholder_weights_def concat_raising_def get_features_def
        dict_of_items_def dict_update_def dict_set_def)



lemma ex_prefixed_at:
  "feature_weight_at ex_prefixed_weights (''pos'', 0) = Some \<lparr>feature = Atomic ''a__tok'', weight = 1\<rparr>"
  by (simp add: feature_weight_at_def ex_prefixed_weights_def)

lemma ex_prefixed_keyed:
  "keyed_entries ex_prefixed_weights = [((''pos'', 0), \<lparr>feature = Atomic ''a__tok'', weight = 1\<rparr>)]"
  by (simp add: keyed_entries_nth ex_prefixed_weights_def)

lemma ex_prefixed_table_b:
  "feature_weights_dict ex_prefixed_weights (Some (feature_fn_of ''b'')) = Inr []"
  by (simp add: feature_weights_dict_def table_items_keyed ex_prefixed_keyed concat_raising_def
        get_features_other_prefix dict_of_items_def dict_update_def)

lemma ex_prefixed_table_a:
  "feature_weights_dict ex_prefixed_weights (Some (feature_fn_of ''a'')) =
     Inr [(Name ''tok'', 1, ''pos'', 0)]"
  by (simp add: feature_weights_dict_def table_items_keyed ex_prefixed_keyed concat_raising_def
        get_features_own_prefix dict_of_items_def dict_update_def dict_set_def)

lemma ex_prefixed_source_b:
  "source_result ''tok'' ex_prefixed_weights (''b'', VectorizerMixin ex_token_vec) =
     Inr (Some ([], \<lparr>document = ''tok'', spans = [], preserve_density = False,
                     vec_name = None\<rparr>))"
  by (simp add: source_result_def get_doc_weighted_spans_def ex_token_vec_def ex_prefixed_table_b
        match_loop_empty_table startswith_def)

lemma ex_prefixed_source_a:
  "source_result ''tok'' ex_prefixed_weights (''a'', VectorizerMixin ex_token_vec) =
     Inr (Some ([((''pos'', 0), 1)],
                \<lparr>document = ''tok'', spans = [(''tok'', [(0, 3)], 1)], preserve_density = False,
                 vec_name = None\<rparr>))"
  by (simp add: source_result_def get_doc_weighted_spans_def ex_token_vec_def ex_prefixed_table_a
        ex_token_analyzer_def match_loop_def match_step_def dict_get_def dict_set_def
        startswith_def)

section \<open>The examples of the union and of composite features\<close>

lemma ex_bias_raises:
  "get_weighted_spans_from_union ''cat'' ex_union ex_bias_weights = Inl AttributeError \<and>
   get_weighted_spans_from_union ''cat'' [(''other'', OtherEstimator)] ex_bias_weights = Inr None \<and>
   (\<exists>dws. get_doc_weighted_spans ''cat'' (VectorizerMixin ex_token_vec) ex_bias_weights None =
            Inr (Some ([], dws)))"
proof -
  have t: "feature_weights_dict ex_bias_weights (Some (feature_fn_of ''w'')) = Inl AttributeError"
    by (simp add: feature_weights_dict_def table_items_keyed keyed_entries_nth
        ex_bias_weights_def concat_raising_def get_features_def feature_fn_of_def)
  have n: "feature_weights_dict ex_bias_weights None = Inr [(Label ''<BIAS>'', 1, ''pos'', 0)]"
    by (simp add: feature_weights_dict_def table_items_keyed keyed_entries_nth
        ex_bias_weights_def concat_raising_def get_features_def dict_of_items_def
        dict_update_def dict_set_def)
  have a: "get_weighted_spans_from_union ''cat'' ex_union ex_bias_weights = Inl AttributeError"
    by (simp add: get_weighted_spans_from_union_def union_loop_def union_step_def ex_union_def
        get_doc_weighted_spans_def ex_token_vec_def t)
  have b: "get_weighted_spans_from_union ''cat'' [(''other'', OtherEstimator)] ex_bias_weights =
      Inr None"
    by (simp add: get_weighted_spans_from_union_def union_loop_def union_step_def
        get_doc_weighted_spans_def)
  have c: "\<exists>dws. get_doc_weighted_spans ''cat'' (VectorizerMixin ex_token_vec) ex_bias_weights None =
            Inr (Some ([], dws))"
    by (simp add: get_doc_weighted_spans_def ex_token_vec_def n ex_token_analyzer_def
        match_loop_def match_step_def dict_get_def)
  from a b c show ?thesis by (intro conjI)
qed

lemma ex_composite_at:
  "feature_weight_at ex_composite_weights (''pos'', 1) =
     Some \<lparr>feature = Composite [''new'', ''york''], weight = 1\<rparr>"
  by (simp add: feature_weight_at_def ex_composite_weights_def)

lemma ex_composite_table:
  "feature_weights_dict ex_composite_weights None =
     Inr [(Name ''york'', 1, ''pos'', 1), (Name ''new'', 1, ''pos'', 1),
          (Name ''bad'', - 1, ''neg'', 0)]"
  by (simp add: feature_weights_dict_def table_items_keyed keyed_entries_nth
        ex_composite_weights_def concat_raising_def get_features_def dict_of_items_def
        dict_update_def dict_set_def upt_rec)

lemma ex_composite_later:
  "\<forall>key' fw' fs'.
     enumerated_before (''pos'', 1) key' \<and>
     feature_weight_at ex_composite_weights key' = Some fw' \<and>
     get_features (feature fw') None = Inr fs' \<longrightarrow> Name ''york'' \<notin> set fs'"
proof (intro allI impI, elim conjE)
  fix key' fw' fs'
  assume b: "enumerated_before (''pos'', 1) key'"
    and at: "feature_weight_at ex_composite_weights key' = Some fw'"
    and g: "get_features (feature fw') None = Inr fs'"
  obtain grp i where key': "key' = (grp, i)" by (cases key')
  from at b have "fw' = \<lparr>feature = Atomic ''bad'', weight = - 1\<rparr>"
    by (auto simp: key' feature_weight_at_def ex_composite_weights_def enumerated_before_def
        less_Suc_eq split: if_splits)
  with g show "Name ''york'' \<notin> set fs'"
    by (auto simp: get_features_def)
qed

lemma ex_shadowed_table:
  "feature_weights_dict ex_shadowed_weights None =
     Inr [(Name ''new'', 1, ''pos'', 0), (Name ''york'', 2, ''pos'', 1)]"
  by (simp add: feature_weights_dict_def table_items_keyed keyed_entries_nth
        ex_shadowed_weights_def concat_raising_def get_features_def dict_of_items_def
        dict_update_def dict_set_def upt_rec)

lemma ex_shadowed_aligned:
  "get_doc_weighted_spans ''york'' (VectorizerMixin ex_token_vec) ex_shadowed_weights None =
     Inr (Some ([((''pos'', 1), 2)],
                \<lparr>document = ''york'', spans = [(''york'', [(0, 4)], 2)],
                 preserve_density = False, vec_name = None\<rparr>))"
  by (simp add: get_doc_weighted_spans_def ex_token_vec_def ex_shadowed_table
        ex_token_analyzer_def match_loop_def match_step_def dict_get_def dict_set_def
        startswith_def)

section \<open>Properties\<close>

text \<open>
  Claim C1. The keys \<open>_get_other\<close> accounts for are exactly the keys \<open>(group, idx)\<close> of
  the original feature weights, \<open>idx\<close> below the length of \<open>pos\<close> or of \<open>neg\<close>, that no
  found-features dictionary contains. \<open>other_items\<close> receives the feature weights at
  exactly those indices, each once, \<open>pos\<close> before \<open>neg\<close> and in index order. So every
  original key is either a matched key or the key of one residual entry, never both, and
  the residual holds the unmatched originals and the summary entries, each once.
\<close>

theorem residual_completeness:
  "snd (unaccounted_loop fws (all_found_features nff)) =
     ({''pos''} \<times> {..<length (pos fws)} \<union> {''neg''} \<times> {..<length (neg fws)}) -
     (\<Union>named \<in> set nff. dict_keys (snd named)) \<and>
   fst (unaccounted_loop fws (all_found_features nff)) =
     map (\<lambda>i. pos fws ! i)
       [i \<leftarrow> [0..<length (pos fws)]. (''pos'', i) \<notin> (\<Union>named \<in> set nff. dict_keys (snd named))] @
     map (\<lambda>i. neg fws ! i)
       [i \<leftarrow> [0..<length (neg fws)]. (''neg'', i) \<notin> (\<Union>named \<in> set nff. dict_keys (snd named))] \<and>
   (\<forall>key fw. feature_weight_at fws key = Some fw \<longrightarrow>
      (if key \<in> (\<Union>named \<in> set nff. dict_keys (snd named))
       then key \<notin> snd (unaccounted_loop fws (all_found_features nff))
       else key \<in> snd (unaccounted_loop fws (all_found_features nff)) \<and>
            (fw \<in> set (pos (get_other fws nff)) \<or> fw \<in> set (neg (get_other fws nff))))) \<and>
   mset (pos (get_other fws nff)) + mset (neg (get_other fws nff)) =
     mset (map (\<lambda>i. pos fws ! i)
       [i \<leftarrow> [0..<length (pos fws)]. (''pos'', i) \<notin> (\<Union>named \<in> set nff. dict_keys (snd named))]) +
     mset (map (\<lambda>i. neg fws ! i)
       [i \<leftarrow> [0..<length (neg fws)]. (''neg'', i) \<notin> (\<Union>named \<in> set nff. dict_keys (snd named))]) +
     mset (map (\<lambda>(name, found). \<lparr>feature = Formatted (highlighted_label name),
                                    weight = sum_list (map snd found)\<rparr>)
               [named \<leftarrow> nff. snd named \<noteq> []])"
proof -
  let ?M = "\<Union>named \<in> set nff. dict_keys (snd named)"
  let ?loop = "unaccounted_loop fws (all_found_features nff)"
  let ?P = "map (\<lambda>i. pos fws ! i) [i \<leftarrow> [0..<length (pos fws)]. (''pos'', i) \<notin> ?M]"
  let ?N = "map (\<lambda>i. neg fws ! i) [i \<leftarrow> [0..<length (neg fws)]. (''neg'', i) \<notin> ?M]"
  have acc: "snd ?loop =
      ({''pos''} \<times> {..<length (pos fws)} \<union> {''neg''} \<times> {..<length (neg fws)}) - ?M"
    by (simp only: unaccounted_loop_eq snd_conv dict_keys_all_found_features
          keys_of_keyed_entries valid_keys)
  have items: "fst ?loop = ?P @ ?N"
    by (simp only: unaccounted_loop_eq fst_conv dict_keys_all_found_features
          unmatched_originals)
  have each: "if key \<in> ?M then key \<notin> snd ?loop
       else key \<in> snd ?loop \<and>
            (fw \<in> set (pos (get_other fws nff)) \<or> fw \<in> set (neg (get_other fws nff)))"
    if at: "feature_weight_at fws key = Some fw" for key fw
  proof (cases "key \<in> ?M")
    case True
    then show ?thesis unfolding acc by simp
  next
    case False
    from at have mem: "(key, fw) \<in> set (keyed_entries fws)"
      by (simp only: in_keyed_entries)
    have "key \<in> {key. feature_weight_at fws key \<noteq> None}" using at by simp
    then have "key \<in> snd ?loop"
      unfolding acc valid_keys [symmetric] using False by blast
    with unmatched_in_residual [OF mem False] False show ?thesis by simp
  qed
  have ms: "mset (pos (get_other fws nff)) + mset (neg (get_other fws nff)) =
     mset ?P + mset ?N +
     mset (map (\<lambda>(name, found). \<lparr>feature = Formatted (highlighted_label name),
                                    weight = sum_list (map snd found)\<rparr>)
               [named \<leftarrow> nff. snd named \<noteq> []])"
    unfolding mset_get_other
    by (subst other_items_appended_eq) (simp only: items mset_append)
  from acc items each ms show ?thesis by blast
qed

theorem residual_completeness_witness:
  "feature_weight_at ex_weights (''neg'', 0) = Some \<lparr>feature = Atomic ''bad'', weight = - 1\<rparr> \<and>
   (''neg'', 0) \<notin> (\<Union>named \<in> set ex_found. dict_keys (snd named)) \<and>
   (''neg'', 0) \<in> snd (unaccounted_loop ex_weights (all_found_features ex_found)) \<and>
   \<lparr>feature = Atomic ''bad'', weight = - 1\<rparr> \<in> set (neg (get_other ex_weights ex_found)) \<and>
   feature_weight_at ex_weights (''pos'', 0) = Some \<lparr>feature = Atomic ''good'', weight = 2\<rparr> \<and>
   (''pos'', 0) \<in> (\<Union>named \<in> set ex_found. dict_keys (snd named)) \<and>
   (''pos'', 0) \<notin> snd (unaccounted_loop ex_weights (all_found_features ex_found))"
proof -
  have n: "feature_weight_at ex_weights (''neg'', 0) =
      Some \<lparr>feature = Atomic ''bad'', weight = - 1\<rparr>"
    by (simp add: feature_weight_at_def ex_weights_def)
  have p: "feature_weight_at ex_weights (''pos'', 0) =
      Some \<lparr>feature = Atomic ''good'', weight = 2\<rparr>"
    by (simp add: feature_weight_at_def ex_weights_def)
  have nm: "(''neg'', 0) \<notin> (\<Union>named \<in> set ex_found. dict_keys (snd named))"
    by (simp add: ex_found_def dict_keys_def)
  have pm: "(''pos'', 0) \<in> (\<Union>named \<in> set ex_found. dict_keys (snd named))"
    by (simp add: ex_found_def dict_keys_def)
  have pos_not_bad: "\<lparr>feature = Atomic ''bad'', weight = - 1\<rparr> \<notin> set (pos (get_other ex_weights ex_found))"
    by (simp add: ex_other)
  from residual_completeness [of ex_weights ex_found] n nm
  have "(''neg'', 0) \<in> snd (unaccounted_loop ex_weights (all_found_features ex_found)) \<and>
      (\<lparr>feature = Atomic ''bad'', weight = - 1\<rparr> \<in> set (pos (get_other ex_weights ex_found)) \<or>
       \<lparr>feature = Atomic ''bad'', weight = - 1\<rparr> \<in> set (neg (get_other ex_weights ex_found)))"
    by (metis (no_types, lifting))
  moreover from residual_completeness [of ex_weights ex_found] p pm
  have "(''pos'', 0) \<notin> snd (unaccounted_loop ex_weights (all_found_features ex_found))"
    by (metis (no_types, lifting))
  ultimately show ?thesis using n p nm pm pos_not_bad by blast
qed

text \<open>
  Claim C2. The \<open>other_items\<close> list after \<open>sort\<close> is in descending order of absolute
  weight, and the sort is stable: for every magnitude, the entries of that magnitude
  stand in the order in which they were appended. Nothing is lost or added by the sort.
  The appended list is the unmatched originals in group-then-index order followed by the
  summary entries, and the residual is the sorted list split by sign.
\<close>

theorem other_items_sorted_stable:
  "sorted_wrt (\<lambda>a b. \<bar>weight a\<bar> \<ge> \<bar>weight b\<bar>) (other_items_sorted fws nff) \<and>
   (\<forall>m. [fw \<leftarrow> other_items_sorted fws nff. \<bar>weight fw\<bar> = m] =
        [fw \<leftarrow> other_items_appended fws nff. \<bar>weight fw\<bar> = m]) \<and>
   mset (other_items_sorted fws nff) = mset (other_items_appended fws nff) \<and>
   other_items_appended fws nff =
     map snd [e \<leftarrow> keyed_entries fws. fst e \<notin> (\<Union>named \<in> set nff. dict_keys (snd named))] @
     map (\<lambda>(name, found). \<lparr>feature = Formatted (highlighted_label name),
                             weight = sum_list (map snd found)\<rparr>)
         [named \<leftarrow> nff. snd named \<noteq> []] \<and>
   pos (get_other fws nff) @ neg (get_other fws nff) =
     [fw \<leftarrow> other_items_sorted fws nff. weight fw \<ge> 0] @
     [fw \<leftarrow> other_items_sorted fws nff. weight fw < 0]"
proof -
  have a: "sorted_wrt (\<lambda>a b. \<bar>weight a\<bar> \<ge> \<bar>weight b\<bar>) (other_items_sorted fws nff)"
    unfolding other_items_sorted_def by (rule sorted_sort_reverse)
  have b: "\<forall>m. [fw \<leftarrow> other_items_sorted fws nff. \<bar>weight fw\<bar> = m] =
        [fw \<leftarrow> other_items_appended fws nff. \<bar>weight fw\<bar> = m]"
    unfolding other_items_sorted_def by (intro allI stable_sort_reverse)
  have c: "mset (other_items_sorted fws nff) = mset (other_items_appended fws nff)"
    unfolding other_items_sorted_def by (rule mset_sort_reverse)
  have d: "pos (get_other fws nff) @ neg (get_other fws nff) =
     [fw \<leftarrow> other_items_sorted fws nff. weight fw \<ge> 0] @
     [fw \<leftarrow> other_items_sorted fws nff. weight fw < 0]"
    by (simp add: get_other_def Let_def)
  from a b c other_items_appended_order [of fws nff] d show ?thesis by (intro conjI)
qed

text \<open>
  Claim C3. The name filter of a source accepts an identifier exactly when it is the
  source name, two underscores and a rest, and gives that rest. In a union of the sources
  \<open>a\<close> and \<open>b\<close>, a feature weight whose feature is \<open>a__tok\<close> gives the identifier
  \<open>tok\<close> to source \<open>a\<close> and no identifier to source \<open>b\<close>: the lookup table of source
  \<open>b\<close> has no entry for its key, and the key is in no found-features dictionary of
  source \<open>b\<close>, whatever source \<open>b\<close> discovers.
\<close>

theorem union_disjointness:
  assumes "feature_weight_at fws key = Some fw" and "feature fw = Atomic ''a__tok''"
  shows "(feature_fn_of name (Name x) = Inr (Some y) \<longleftrightarrow> x = name @ ''__'' @ y) \<and>
         get_features (feature fw) (Some (feature_fn_of ''a'')) = Inr [Name ''tok''] \<and>
         get_features (feature fw) (Some (feature_fn_of ''b'')) = Inr [] \<and>
         (\<forall>table. feature_weights_dict fws (Some (feature_fn_of ''b'')) = Inr table \<longrightarrow>
            (\<forall>entry \<in> set table. snd (snd entry) \<noteq> key)) \<and>
         (\<forall>found dws. source_result doc fws (''b'', vb) = Inr (Some (found, dws)) \<longrightarrow>
            key \<notin> dict_keys found) \<and>
         (\<forall>ds nf. union_loop doc [(''a'', va), (''b'', vb)] fws = Inr (ds, nf) \<longrightarrow>
            (\<forall>named \<in> set nf. fst named = ''b'' \<longrightarrow> key \<notin> dict_keys (snd named)))"
proof -
  have none: "get_features (feature fw) (Some (feature_fn_of ''b'')) = Inr []"
    unfolding assms(2) by (rule get_features_other_prefix)
  then have ids: "identifiers (Some (feature_fn_of ''b'')) (feature fw) = []"
    by (simp add: identifiers_def)
  have own: "get_features (feature fw) (Some (feature_fn_of ''a'')) = Inr [Name ''tok'']"
    unfolding assms(2) by (rule get_features_own_prefix)
  have table: "\<forall>table. feature_weights_dict fws (Some (feature_fn_of ''b'')) = Inr table \<longrightarrow>
      (\<forall>entry \<in> set table. snd (snd entry) \<noteq> key)"
    using table_key_has_identifier [OF _ _ _ assms(1)] ids by blast
  have src: "key \<notin> dict_keys found"
    if "source_result doc fws (''b'', vb') = Inr (Some (found, dws))" for found dws vb'
    using found_key_has_identifier [OF that [unfolded source_result_def fst_conv snd_conv] _ assms(1)]
      ids by blast
  have loop: "\<forall>ds nf. union_loop doc [(''a'', va), (''b'', vb)] fws = Inr (ds, nf) \<longrightarrow>
      (\<forall>named \<in> set nf. fst named = ''b'' \<longrightarrow> key \<notin> dict_keys (snd named))"
  proof (intro allI impI ballI)
    fix ds nf named
    assume l: "union_loop doc [(''a'', va), (''b'', vb)] fws = Inr (ds, nf)"
      and mem: "named \<in> set nf" and b: "fst named = ''b''"
    from l have "nf = union_found doc fws [(''a'', va), (''b'', vb)]"
      unfolding union_loop_eq by (auto split: if_splits)
    with mem have "named \<in> set (union_found doc fws [(''a'', va), (''b'', vb)])" by simp
    from union_found_mem [OF this] obtain s dws where
      s: "s \<in> set [(''a'', va), (''b'', vb)]" "fst s = fst named"
        "source_result doc fws s = Inr (Some (snd named, dws))"
      by blast
    from s(1,2) b have "s = (''b'', vb)" by auto
    with s(3) show "key \<notin> dict_keys (snd named)" using src by blast
  qed
  from feature_fn_of_Some [of name x y] own none table src loop show ?thesis by blast
qed

theorem union_disjointness_witness:
  "feature_weight_at ex_prefixed_weights (''pos'', 0) =
     Some \<lparr>feature = Atomic ''a__tok'', weight = 1\<rparr> \<and>
   feature \<lparr>feature = Atomic ''a__tok'', weight = 1\<rparr> = Atomic ''a__tok'' \<and>
   ex_token_analyzer ''tok'' = [([(0, 3)], ''tok'')] \<and>
   source_result ''tok'' ex_prefixed_weights (''b'', VectorizerMixin ex_token_vec) =
     Inr (Some ([], \<lparr>document = ''tok'', spans = [], preserve_density = False,
                     vec_name = None\<rparr>)) \<and>
   (''pos'', 0) \<notin> dict_keys ([] :: found_features) \<and>
   source_result ''tok'' ex_prefixed_weights (''a'', VectorizerMixin ex_token_vec) =
     Inr (Some ([((''pos'', 0), 1)],
                \<lparr>document = ''tok'', spans = [(''tok'', [(0, 3)], 1)], preserve_density = False,
                 vec_name = None\<rparr>))"
proof -
  have f: "feature \<lparr>feature = Atomic ''a__tok'', weight = 1\<rparr> = Atomic ''a__tok''"
    by simp
  have d: "ex_token_analyzer ''tok'' = [([(0, 3)], ''tok'')]"
    by (simp add: ex_token_analyzer_def)
  have "(''pos'', 0) \<notin> dict_keys ([] :: found_features)"
    using union_disjointness [OF ex_prefixed_at f, of _ _ _ "''tok''" "VectorizerMixin ex_token_vec"]
      ex_prefixed_source_b by blast
  then show ?thesis
    using ex_prefixed_at f d ex_prefixed_source_b ex_prefixed_source_a by blast
qed



text \<open>
  Claim C5. After the unmatched originals, \<open>other_items\<close> receives one summary entry for
  each named dictionary that is not empty, in order: its weight is the sum of the
  dictionary's values, its label is \<open>Highlighted in text (sum)\<close>, preceded by the name and
  a colon when the name is not empty. When every dictionary is empty there is no summary
  entry. The residual holds exactly these entries. For a single vectorizer,
  \<open>get_weighted_spans\<close> calls \<open>_get_other\<close> with the one dictionary under the empty name.
\<close>

theorem summary_entries:
  "other_items_appended fws nff =
     fst (unaccounted_loop fws (all_found_features nff)) @
     map (\<lambda>(name, found). \<lparr>feature = Formatted (highlighted_label name),
                             weight = sum_list (map snd found)\<rparr>)
         [named \<leftarrow> nff. snd named \<noteq> []] \<and>
   highlighted_label name =
     (if name = [] then ''Highlighted in text (sum)''
      else name @ '': Highlighted in text (sum)'') \<and>
   ((\<forall>named \<in> set nff. snd named = []) \<longrightarrow>
      other_items_appended fws nff = fst (unaccounted_loop fws (all_found_features nff))) \<and>
   mset (pos (get_other fws nff)) + mset (neg (get_other fws nff)) =
     mset (other_items_appended fws nff) \<and>
   (\<forall>found dws.
      (\<forall>srcs. vec \<noteq> FeatureUnion srcs) \<and>
      get_doc_weighted_spans doc vec fws None = Inr (Some (found, dws)) \<longrightarrow>
      get_weighted_spans doc vec fws =
        Inr (Some \<lparr>docs = [dws], other = get_other fws [([], found)]\<rparr>))"
proof -
  have "[named \<leftarrow> nff. snd named \<noteq> []] = []" if "\<forall>named \<in> set nff. snd named = []"
    using that by (simp add: filter_empty_conv)
  then have none: "(\<forall>named \<in> set nff. snd named = []) \<longrightarrow>
      other_items_appended fws nff = fst (unaccounted_loop fws (all_found_features nff))"
    by (simp add: other_items_appended_eq)
  have label: "highlighted_label name =
     (if name = [] then ''Highlighted in text (sum)''
      else name @ '': Highlighted in text (sum)'')"
    by (simp add: highlighted_label_def)
  have single: "\<forall>found dws.
      (\<forall>srcs. vec \<noteq> FeatureUnion srcs) \<and>
      get_doc_weighted_spans doc vec fws None = Inr (Some (found, dws)) \<longrightarrow>
      get_weighted_spans doc vec fws =
        Inr (Some \<lparr>docs = [dws], other = get_other fws [([], found)]\<rparr>)"
    using get_weighted_spans_single by blast
  from other_items_appended_eq [of fws nff] label none mset_get_other [of fws nff] single
  show ?thesis by (intro conjI)
qed

theorem summary_entries_witness:
  "other_items_appended ex_weights ex_nothing_found =
     fst (unaccounted_loop ex_weights (all_found_features ex_nothing_found)) \<and>
   other_items_appended ex_weights ex_found =
     [\<lparr>feature = Atomic ''fine'', weight = 1\<rparr>, \<lparr>feature = Atomic ''bad'', weight = -1\<rparr>,
      \<lparr>feature = Formatted ''Highlighted in text (sum)'', weight = 2\<rparr>] \<and>
   get_weighted_spans ''good movie'' (VectorizerMixin ex_vec) ex_weights =
     Inr (Some \<lparr>docs = [\<lparr>document = ''good movie'', spans = [(''good'', [(0, 4)], 2)],
                          preserve_density = False, vec_name = None\<rparr>],
                other = get_other ex_weights ex_found\<rparr>)"
proof -
  have a: "other_items_appended ex_weights ex_nothing_found =
      fst (unaccounted_loop ex_weights (all_found_features ex_nothing_found))"
    using summary_entries [of ex_weights ex_nothing_found]
    by (simp add: ex_nothing_found_def)
  have b: "get_weighted_spans ''good movie'' (VectorizerMixin ex_vec) ex_weights =
     Inr (Some \<lparr>docs = [\<lparr>document = ''good movie'', spans = [(''good'', [(0, 4)], 2)],
                          preserve_density = False, vec_name = None\<rparr>],
                other = get_other ex_weights ex_found\<rparr>)"
    using summary_entries [of ex_weights ex_found _ "VectorizerMixin ex_vec" "''good movie''"]
      ex_aligned
    by (simp add: ex_found_def)
  from a ex_appended b show ?thesis by (intro conjI)
qed

text \<open>
  Claim C6. In the residual every \<open>pos\<close> entry has a weight of at least zero and every
  \<open>neg\<close> entry a weight below zero; each of the two lists is the sorted \<open>other_items\<close>
  list filtered by sign, so it keeps the sorted order.
\<close>

theorem get_other_sign_partition:
  "(\<forall>fw \<in> set (pos (get_other fws nff)). weight fw \<ge> 0) \<and>
   (\<forall>fw \<in> set (neg (get_other fws nff)). weight fw < 0) \<and>
   pos (get_other fws nff) = [fw \<leftarrow> other_items_sorted fws nff. weight fw \<ge> 0] \<and>
   neg (get_other fws nff) = [fw \<leftarrow> other_items_sorted fws nff. weight fw < 0] \<and>
   subseq (pos (get_other fws nff)) (other_items_sorted fws nff) \<and>
   subseq (neg (get_other fws nff)) (other_items_sorted fws nff)"
  by (simp add: get_other_def Let_def)

theorem get_other_sign_partition_witness:
  "\<lparr>feature = Atomic ''fine'', weight = 1\<rparr> \<in> set (pos (get_other ex_weights ex_found)) \<and>
   weight \<lparr>feature = Atomic ''fine'', weight = 1\<rparr> \<ge> 0 \<and>
   \<lparr>feature = Atomic ''bad'', weight = -1\<rparr> \<in> set (neg (get_other ex_weights ex_found)) \<and>
   weight \<lparr>feature = Atomic ''bad'', weight = -1\<rparr> < 0 \<and>
   subseq (pos (get_other ex_weights ex_found)) (other_items_sorted ex_weights ex_found)"
  using get_other_sign_partition [of ex_weights ex_found] by (simp add: ex_other ex_sorted)

text \<open>
  Claim C7, as amended. \<open>_get_doc_weighted_spans\<close> returns \<open>None\<close> exactly when the
  vectorizer (unwrapped from an \<open>InvertableHashingVectorizer\<close>) is not a text vectorizer
  or \<open>build_span_analyzer\<close> gives no span analyzer. For an applicable analyzer, empty
  feature weights give a result with an empty spans list and an empty found-features
  dictionary; so does, when the lookup table is built, a document in which the analyzer
  discovers nothing. In general the spans are the discovered pairs whose identifier is in
  the lookup table, in the analyzer's order: an empty document gives what the analyzer
  discovers in its preprocessed form.
\<close>

theorem single_source_edge_cases:
  "(get_doc_weighted_spans doc vec fws fn = Inr None \<longleftrightarrow>
      (case (case vec of InvertableHashingVectorizer v \<Rightarrow> v | _ \<Rightarrow> vec) of
         VectorizerMixin tv \<Rightarrow> fst (build_span_analyzer tv doc) = None
       | _ \<Rightarrow> True)) \<and>
   (\<forall>tv sa pdoc.
      (case vec of InvertableHashingVectorizer v \<Rightarrow> v | _ \<Rightarrow> vec) = VectorizerMixin tv \<and>
      build_span_analyzer tv doc = (Some sa, pdoc) \<and> pos fws = [] \<and> neg fws = [] \<longrightarrow>
      get_doc_weighted_spans doc vec fws fn =
        Inr (Some ([], \<lparr>document = pdoc, spans = [],
                        preserve_density = startswith (analyzer tv) ''char'',
                        vec_name = None\<rparr>))) \<and>
   (\<forall>tv sa pdoc table.
      (case vec of InvertableHashingVectorizer v \<Rightarrow> v | _ \<Rightarrow> vec) = VectorizerMixin tv \<and>
      build_span_analyzer tv doc = (Some sa, pdoc) \<and>
      feature_weights_dict fws fn = Inr table \<and> sa pdoc = [] \<longrightarrow>
      get_doc_weighted_spans doc vec fws fn =
        Inr (Some ([], \<lparr>document = pdoc, spans = [],
                        preserve_density = startswith (analyzer tv) ''char'',
                        vec_name = None\<rparr>))) \<and>
   (\<forall>tv sa pdoc table.
      (case vec of InvertableHashingVectorizer v \<Rightarrow> v | _ \<Rightarrow> vec) = VectorizerMixin tv \<and>
      build_span_analyzer tv doc = (Some sa, pdoc) \<and>
      feature_weights_dict fws fn = Inr table \<longrightarrow>
      (\<exists>found dws.
         get_doc_weighted_spans doc vec fws fn = Inr (Some (found, dws)) \<and>
         document dws = pdoc \<and>
         map (\<lambda>(f, f_spans, w). (f_spans, f)) (spans dws) =
           [p \<leftarrow> sa pdoc. dict_get table (Name (snd p)) \<noteq> None]))"
proof -
  have a: "get_doc_weighted_spans doc vec fws fn = Inr None \<longleftrightarrow>
      (case (case vec of InvertableHashingVectorizer v \<Rightarrow> v | _ \<Rightarrow> vec) of
         VectorizerMixin tv \<Rightarrow> fst (build_span_analyzer tv doc) = None
       | _ \<Rightarrow> True)"
    unfolding analysed_None [symmetric] get_doc_weighted_spans_eq
    by (simp split: option.splits sum.splits)
  have b: "get_doc_weighted_spans doc vec fws fn =
        Inr (Some ([], \<lparr>document = pdoc, spans = [],
                        preserve_density = startswith (analyzer tv) ''char'',
                        vec_name = None\<rparr>))"
    if "(case vec of InvertableHashingVectorizer v \<Rightarrow> v | _ \<Rightarrow> vec) = VectorizerMixin tv"
      and "build_span_analyzer tv doc = (Some sa, pdoc)"
      and e: "pos fws = []" "neg fws = []" for tv sa pdoc
  proof -
    from that(1,2) have an: "analysed doc vec = Some (tv, sa, pdoc)"
      by (simp only: analysed_Some)
    show ?thesis
      unfolding get_doc_weighted_spans_eq an
      by (simp add: feature_weights_dict_empty [OF e] match_loop_empty_table)
  qed
  have c: "get_doc_weighted_spans doc vec fws fn =
        Inr (Some ([], \<lparr>document = pdoc, spans = [],
                        preserve_density = startswith (analyzer tv) ''char'',
                        vec_name = None\<rparr>))"
    if "(case vec of InvertableHashingVectorizer v \<Rightarrow> v | _ \<Rightarrow> vec) = VectorizerMixin tv"
      and "build_span_analyzer tv doc = (Some sa, pdoc)"
      and t: "feature_weights_dict fws fn = Inr table" and e: "sa pdoc = []"
    for tv sa pdoc table
  proof -
    from that(1,2) have an: "analysed doc vec = Some (tv, sa, pdoc)"
      by (simp only: analysed_Some)
    show ?thesis
      unfolding get_doc_weighted_spans_eq an
      by (simp add: t e match_loop_no_pairs)
  qed
  have d: "\<exists>found dws.
         get_doc_weighted_spans doc vec fws fn = Inr (Some (found, dws)) \<and>
         document dws = pdoc \<and>
         map (\<lambda>(f, f_spans, w). (f_spans, f)) (spans dws) =
           [p \<leftarrow> sa pdoc. dict_get table (Name (snd p)) \<noteq> None]"
    if "(case vec of InvertableHashingVectorizer v \<Rightarrow> v | _ \<Rightarrow> vec) = VectorizerMixin tv"
      and "build_span_analyzer tv doc = (Some sa, pdoc)"
      and t: "feature_weights_dict fws fn = Inr table" for tv sa pdoc table
  proof -
    from that(1,2) have an: "analysed doc vec = Some (tv, sa, pdoc)"
      by (simp only: analysed_Some)
    show ?thesis
      unfolding get_doc_weighted_spans_eq an
      by (simp add: t match_loop_spans span_entries_selection)
  qed
  from a b c d show ?thesis by blast
qed

theorem single_source_edge_cases_witness:
  "build_span_analyzer ex_token_vec [] = (Some ex_token_analyzer, []) \<and>
   ex_token_analyzer [] = [] \<and>
   get_doc_weighted_spans [] (VectorizerMixin ex_token_vec) ex_weights None =
     Inr (Some ([], \<lparr>document = [], spans = [], preserve_density = False, vec_name = None\<rparr>)) \<and>
   build_span_analyzer ex_token_vec ''good movie'' = (Some ex_token_analyzer, ''good movie'') \<and>
   pos ex_no_weights = [] \<and> neg ex_no_weights = [] \<and>
   get_doc_weighted_spans ''good movie'' (InvertableHashingVectorizer (VectorizerMixin ex_token_vec))
       ex_no_weights None =
     Inr (Some ([], \<lparr>document = ''good movie'', spans = [], preserve_density = False,
                     vec_name = None\<rparr>)) \<and>
   get_doc_weighted_spans ''good movie'' OtherEstimator ex_weights None = Inr None"
proof -
  have e: "ex_token_analyzer [] = []" by (simp add: ex_token_analyzer_def)
  have n: "pos ex_no_weights = [] \<and> neg ex_no_weights = []" by (simp add: ex_no_weights_def)
  have d: "startswith (analyzer ex_token_vec) ''char'' = False"
    by (simp add: ex_token_vec_def startswith_def)
  have r1: "get_doc_weighted_spans [] (VectorizerMixin ex_token_vec) ex_weights None =
     Inr (Some ([], \<lparr>document = [], spans = [], preserve_density = False, vec_name = None\<rparr>))"
    using single_source_edge_cases [of "[]" "VectorizerMixin ex_token_vec" ex_weights None,
        THEN conjunct2, THEN conjunct2, THEN conjunct1, rule_format,
        of ex_token_vec ex_token_analyzer "[]"] ex_token_empty ex_table e d
    by simp
  have r2: "get_doc_weighted_spans ''good movie''
       (InvertableHashingVectorizer (VectorizerMixin ex_token_vec)) ex_no_weights None =
     Inr (Some ([], \<lparr>document = ''good movie'', spans = [], preserve_density = False,
                     vec_name = None\<rparr>))"
    using single_source_edge_cases [of "''good movie''"
        "InvertableHashingVectorizer (VectorizerMixin ex_token_vec)" ex_no_weights None,
        THEN conjunct2, THEN conjunct1, rule_format,
        of ex_token_vec ex_token_analyzer "''good movie''"] ex_token_hashing n d
    by simp
  have r3: "get_doc_weighted_spans ''good movie'' OtherEstimator ex_weights None = Inr None"
    using single_source_edge_cases [of "''good movie''" OtherEstimator ex_weights None]
    by simp
  from ex_token_empty e r1 ex_token_hashing n r2 r3 show ?thesis by blast
qed

theorem empty_document_counterexample:
  "build_span_analyzer ex_placeholder_vec [] = (Some ex_token_analyzer, ''n/a'') \<and>
   get_doc_weighted_spans [] (VectorizerMixin ex_placeholder_vec) ex_placeholder_weights None =
     Inr (Some ([((''pos'', 0), 1)],
                \<lparr>document = ''n/a'', spans = [(''n/a'', [(0, 3)], 1)],
                 preserve_density = False, vec_name = None\<rparr>))"
  by (simp add: get_doc_weighted_spans_def ex_placeholder_vec_def ex_placeholder_table
        ex_token_analyzer_def match_loop_def match_step_def dict_get_def dict_set_def
        startswith_def)

text \<open>
  Claim C8, as amended. A composite feature gives its parts' names as identifiers (those
  the name filter accepts, stripped, when there is a filter; the name filter of a union
  never raises on them), and when the lookup table is built each of them is written to it
  with the weight and key of its feature weight. It matches a discovered identifier equal
  to one of them when no feature weight enumerated later gives the same identifier: the
  span and the found-features entry then carry its weight and key. A composite all of
  whose parts the filter rejects writes nothing to the table and is never in the found
  features of that source. A feature weight whose key is in no dictionary is in the
  residual.
\<close>

theorem composite_matching:
  assumes at: "feature_weight_at fws key = Some fw"
    and comp: "feature fw = Composite names"
  shows
   "get_features (feature fw) None = Inr (map Name names) \<and>
    get_features (feature fw) (Some (feature_fn_of name)) =
      Inr (map Name (filter_truthy
             (map (\<lambda>s. if startswith s (name @ ''__'')
                        then Some (drop (length (name @ ''__'')) s) else None) names))) \<and>
    (\<forall>items. table_items fws fn = Inr items \<longrightarrow>
       (\<exists>fs. get_features (feature fw) fn = Inr fs \<and>
             (\<forall>f \<in> set fs. (f, (weight fw, key)) \<in> set items))) \<and>
    (\<forall>table fs f.
       feature_weights_dict fws fn = Inr table \<and>
       get_features (feature fw) fn = Inr fs \<and> Name f \<in> set fs \<and>
       (\<forall>key' fw' fs'.
          enumerated_before key key' \<and> feature_weight_at fws key' = Some fw' \<and>
          get_features (feature fw') fn = Inr fs' \<longrightarrow> Name f \<notin> set fs') \<longrightarrow>
       dict_get table (Name f) = Some (weight fw, key) \<and>
       (\<forall>tv sa pdoc f_spans.
          (case vec of InvertableHashingVectorizer v \<Rightarrow> v | _ \<Rightarrow> vec) = VectorizerMixin tv \<and>
          build_span_analyzer tv doc = (Some sa, pdoc) \<and> (f_spans, f) \<in> set (sa pdoc) \<longrightarrow>
          (\<exists>found dws.
             get_doc_weighted_spans doc vec fws fn = Inr (Some (found, dws)) \<and>
             dict_get found key = Some (weight fw) \<and>
             (f, f_spans, weight fw) \<in> set (spans dws)))) \<and>
    (get_features (feature fw) fn = Inr [] \<longrightarrow>
       (\<forall>table. feature_weights_dict fws fn = Inr table \<longrightarrow>
          (\<forall>entry \<in> set table. snd (snd entry) \<noteq> key)) \<and>
       (\<forall>found dws.
          get_doc_weighted_spans doc vec fws fn = Inr (Some (found, dws)) \<longrightarrow>
          key \<notin> dict_keys found)) \<and>
    (\<forall>nff. key \<notin> (\<Union>named \<in> set nff. dict_keys (snd named)) \<longrightarrow>
       fw \<in> set (other_items_appended fws nff) \<and>
       (fw \<in> set (pos (get_other fws nff)) \<or> fw \<in> set (neg (get_other fws nff))))"
proof -
  have mem: "(key, fw) \<in> set (keyed_entries fws)"
    using at by (simp only: in_keyed_entries)
  have a: "get_features (feature fw) None = Inr (map Name names)"
    by (simp add: comp get_features_def)
  have b: "get_features (feature fw) (Some (feature_fn_of name)) =
      Inr (map Name (filter_truthy
             (map (\<lambda>s. if startswith s (name @ ''__'')
                        then Some (drop (length (name @ ''__'')) s) else None) names)))"
    unfolding comp by (rule get_features_composite_filter)
  have c: "\<exists>fs. get_features (feature fw) fn = Inr fs \<and>
             (\<forall>f \<in> set fs. (f, (weight fw, key)) \<in> set items)"
    if items: "table_items fws fn = Inr items" for items
  proof -
    from table_items_Inr(2) [OF items] mem
    have g: "get_features (feature fw) fn = Inr (identifiers fn (feature fw))" by force
    have "\<forall>f \<in> set (identifiers fn (feature fw)). (f, (weight fw, key)) \<in> set items"
      unfolding in_table_items [OF items] using at by blast
    with g show ?thesis by blast
  qed
  have d: "dict_get table (Name f) = Some (weight fw, key) \<and>
       (\<forall>tv sa pdoc f_spans.
          (case vec of InvertableHashingVectorizer v \<Rightarrow> v | _ \<Rightarrow> vec) = VectorizerMixin tv \<and>
          build_span_analyzer tv doc = (Some sa, pdoc) \<and> (f_spans, f) \<in> set (sa pdoc) \<longrightarrow>
          (\<exists>found dws.
             get_doc_weighted_spans doc vec fws fn = Inr (Some (found, dws)) \<and>
             dict_get found key = Some (weight fw) \<and>
             (f, f_spans, weight fw) \<in> set (spans dws)))"
    if table: "feature_weights_dict fws fn = Inr table"
      and fs: "get_features (feature fw) fn = Inr fs" and f: "Name f \<in> set fs"
      and later: "\<forall>key' fw' fs'.
          enumerated_before key key' \<and> feature_weight_at fws key' = Some fw' \<and>
          get_features (feature fw') fn = Inr fs' \<longrightarrow> Name f \<notin> set fs'"
    for table fs f
  proof -
    have f': "Name f \<in> set (identifiers fn (feature fw))"
      using fs f by (simp add: identifiers_def)
    have later': "\<forall>key' fw'. enumerated_before key key' \<and> feature_weight_at fws key' = Some fw' \<longrightarrow>
        Name f \<notin> set (identifiers fn (feature fw'))"
      using later get_features_of_valid [OF table] by blast
    have hit: "dict_get table (Name f) = Some (weight fw, key)"
      using table at f' later' by (rule table_lookup_last)
    have "\<exists>found dws.
             get_doc_weighted_spans doc vec fws fn = Inr (Some (found, dws)) \<and>
             dict_get found key = Some (weight fw) \<and>
             (f, f_spans, weight fw) \<in> set (spans dws)"
      if "(case vec of InvertableHashingVectorizer v \<Rightarrow> v | _ \<Rightarrow> vec) = VectorizerMixin tv"
        and "build_span_analyzer tv doc = (Some sa, pdoc)" and disc: "(f_spans, f) \<in> set (sa pdoc)"
      for tv sa pdoc f_spans
    proof -
      from that(1,2) have an: "analysed doc vec = Some (tv, sa, pdoc)"
        by (simp only: analysed_Some)
      from table hit an disc show ?thesis by (rule table_hit_matches)
    qed
    with hit show ?thesis by blast
  qed
  have e: "(\<forall>table. feature_weights_dict fws fn = Inr table \<longrightarrow>
          (\<forall>entry \<in> set table. snd (snd entry) \<noteq> key)) \<and>
       (\<forall>found dws.
          get_doc_weighted_spans doc vec fws fn = Inr (Some (found, dws)) \<longrightarrow>
          key \<notin> dict_keys found)"
    if none: "get_features (feature fw) fn = Inr []"
  proof -
    from none have ids: "identifiers fn (feature fw) = []"
      by (simp add: identifiers_def)
    have e1: "\<forall>table. feature_weights_dict fws fn = Inr table \<longrightarrow>
          (\<forall>entry \<in> set table. snd (snd entry) \<noteq> key)"
      using table_key_has_identifier [OF _ _ _ at] ids by blast
    have e2: "\<forall>found dws.
          get_doc_weighted_spans doc vec fws fn = Inr (Some (found, dws)) \<longrightarrow>
          key \<notin> dict_keys found"
      using found_key_has_identifier [OF _ _ at] ids by blast
    from e1 e2 show ?thesis by (intro conjI)
  qed
  have r: "\<forall>nff. key \<notin> (\<Union>named \<in> set nff. dict_keys (snd named)) \<longrightarrow>
       fw \<in> set (other_items_appended fws nff) \<and>
       (fw \<in> set (pos (get_other fws nff)) \<or> fw \<in> set (neg (get_other fws nff)))"
    using unmatched_in_residual [OF mem] by blast
  show ?thesis
    apply (intro conjI)
         apply (rule a)
        apply (rule b)
       apply (intro allI impI)
       apply (erule c)
      apply (intro allI impI)
      apply (elim conjE)
      apply (erule (3) d)
     apply (intro impI)
     apply (erule e)
    apply (rule r)
    done
qed

theorem composite_matching_witness:
  "feature_weight_at ex_composite_weights (''pos'', 1) =
     Some \<lparr>feature = Composite [''new'', ''york''], weight = 1\<rparr> \<and>
   get_features (Composite [''new'', ''york'']) None = Inr [Name ''new'', Name ''york''] \<and>
   (\<exists>table. feature_weights_dict ex_composite_weights None = Inr table \<and>
            dict_get table (Name ''york'') = Some (1, (''pos'', 1))) \<and>
   get_features (Composite [''new'', ''york'']) (Some (feature_fn_of ''b'')) = Inr [] \<and>
   \<lparr>feature = Composite [''new'', ''york''], weight = 1\<rparr>
     \<in> set (other_items_appended ex_composite_weights [])"
proof -
  let ?c = "\<lparr>feature = Composite [''new'', ''york''], weight = 1\<rparr>"
  have comp: "feature ?c = Composite [''new'', ''york'']" by simp
  note cm = composite_matching [OF ex_composite_at comp]
  have g: "get_features (Composite [''new'', ''york'']) None = Inr [Name ''new'', Name ''york'']"
    using cm [of _ None] by simp
  have r: "get_features (Composite [''new'', ''york'']) (Some (feature_fn_of ''b'')) = Inr []"
    using cm [of "''b''" None] by (simp add: startswith_def)
  have hit: "dict_get t (Name ''york'') = Some (1, (''pos'', 1))"
    if "feature_weights_dict ex_composite_weights None = Inr t" for t
    using cm [of _ None, THEN conjunct2, THEN conjunct2, THEN conjunct2, THEN conjunct1,
        rule_format, of t "[Name ''new'', Name ''york'']" "''york''"]
      that g ex_composite_later
    by simp
  have res: "?c \<in> set (other_items_appended ex_composite_weights [])"
    using cm [of _ None, THEN conjunct2, THEN conjunct2, THEN conjunct2, THEN conjunct2,
        THEN conjunct2, rule_format, of "[]"]
    by simp
  from ex_composite_at g ex_composite_table hit [OF ex_composite_table] r res
  show ?thesis by blast
qed

theorem composite_match_counterexample:
  "feature_weight_at ex_shadowed_weights (''pos'', 0) =
     Some \<lparr>feature = Composite [''new'', ''york''], weight = 1\<rparr> \<and>
   ''york'' \<in> set [''new'', ''york''] \<and>
   ex_token_analyzer ''york'' = [([(0, 4)], ''york'')] \<and>
   feature_weights_dict ex_shadowed_weights None =
     Inr [(Name ''new'', 1, ''pos'', 0), (Name ''york'', 2, ''pos'', 1)] \<and>
   get_doc_weighted_spans ''york'' (VectorizerMixin ex_token_vec) ex_shadowed_weights None =
     Inr (Some ([((''pos'', 1), 2)],
                \<lparr>document = ''york'', spans = [(''york'', [(0, 4)], 2)],
                 preserve_density = False, vec_name = None\<rparr>)) \<and>
   (''pos'', 0) \<notin> dict_keys ([((''pos'', 1), 2)] :: found_features)"
proof -
  have at: "feature_weight_at ex_shadowed_weights (''pos'', 0) =
      Some \<lparr>feature = Composite [''new'', ''york''], weight = 1\<rparr>"
    by (simp add: feature_weight_at_def ex_shadowed_weights_def)
  have part: "''york'' \<in> set [''new'', ''york'']" by simp
  have disc: "ex_token_analyzer ''york'' = [([(0, 4)], ''york'')]"
    by (simp add: ex_token_analyzer_def)
  have un: "(''pos'', 0) \<notin> dict_keys ([((''pos'', 1), 2)] :: found_features)"
    by (simp add: dict_keys_def)
  from at part disc ex_shadowed_table ex_shadowed_aligned un show ?thesis by (intro conjI)
qed

text \<open>
  Claim C9. The residual returned by \<open>_get_other\<close> carries the \<open>pos_remaining\<close> and
  \<open>neg_remaining\<close> of the original feature weights unchanged.
\<close>

theorem get_other_remaining:
  "pos_remaining (get_other fws nff) = pos_remaining fws \<and>
   neg_remaining (get_other fws nff) = neg_remaining fws"
  by (simp add: get_other_def Let_def)

text \<open>
  Claim C10. When \<open>_get_doc_weighted_spans\<close> returns a result, every key of
  \<open>found_features\<close> is the key of an original feature weight and its value is that
  feature weight's weight; every emitted span carries the weight the lookup table stores
  for its identifier, which is the weight of the original feature weight at the stored key
  and the value recorded for that key. The dictionary has each key once.
\<close>

theorem matching_keeps_weights:
  assumes "get_doc_weighted_spans doc vec fws fn = Inr (Some (found, dws))"
  shows "(\<forall>(key, w) \<in> set found.
            \<exists>fw. feature_weight_at fws key = Some fw \<and> weight fw = w) \<and>
         (\<forall>(f, f_spans, w) \<in> set (spans dws).
            \<exists>table key fw.
              feature_weights_dict fws fn = Inr table \<and>
              dict_get table (Name f) = Some (w, key) \<and>
              feature_weight_at fws key = Some fw \<and> weight fw = w \<and>
              dict_get found key = Some w) \<and>
         distinct (map fst found)"
proof -
  from assms obtain tv sa pdoc table where
    "analysed doc vec = Some (tv, sa, pdoc)"
    and table: "feature_weights_dict fws fn = Inr table"
    and found: "found = snd (match_loop table (sa pdoc))"
    and dws: "dws = \<lparr>document = pdoc, spans = fst (match_loop table (sa pdoc)),
                 preserve_density = startswith (analyzer tv) ''char'', vec_name = None\<rparr>"
    by (rule get_doc_weighted_spans_Some)
  have sp: "spans dws = fst (match_loop table (sa pdoc))"
    by (simp add: dws)
  have a: "\<forall>(key, w) \<in> set found. \<exists>fw. feature_weight_at fws key = Some fw \<and> weight fw = w"
    unfolding found using match_loop_found_sound [OF table] by blast
  have b: "\<forall>(f, f_spans, w) \<in> set (spans dws).
            \<exists>table key fw.
              feature_weights_dict fws fn = Inr table \<and>
              dict_get table (Name f) = Some (w, key) \<and>
              feature_weight_at fws key = Some fw \<and> weight fw = w \<and>
              dict_get found key = Some w"
    unfolding found sp using match_loop_span_sound [OF table] table by blast
  have c: "distinct (map fst found)"
    unfolding found by (rule match_loop_distinct)
  from a b c show ?thesis by blast
qed

theorem matching_keeps_weights_witness:
  "get_doc_weighted_spans ''good movie'' (VectorizerMixin ex_vec) ex_weights None =
     Inr (Some ([((''pos'', 0), 2)],
                \<lparr>document = ''good movie'', spans = [(''good'', [(0, 4)], 2)],
                 preserve_density = False, vec_name = None\<rparr>)) \<and>
   (\<exists>fw. feature_weight_at ex_weights (''pos'', 0) = Some fw \<and> weight fw = 2) \<and>
   (\<exists>table key fw.
      feature_weights_dict ex_weights None = Inr table \<and>
      dict_get table (Name ''good'') = Some (2, key) \<and>
      feature_weight_at ex_weights key = Some fw \<and> weight fw = 2)"
  using matching_keeps_weights [OF ex_aligned] ex_aligned by simp blast

end
